theory Spec2Isabelle
  imports Main "HOL-Library.Sublist" "HOL-Library.AList"
begin

section \<open>Paths: the functions of Node's posix \<open>path\<close> module that server.js calls\<close>

text \<open>
  server.js imports \<open>dirname\<close> and \<open>join\<close> from \<open>path\<close>; the definitions follow
  \<open>lib/path.js\<close> of Node for POSIX paths. Both work on strings;
  \<open>join\<close> concatenates its non-empty arguments with \<open>/\<close> and normalises the result:
  empty and \<open>.\<close> segments disappear, a \<open>..\<close> segment removes the segment before it
  (or is kept at the front of a relative path, or dropped at the root of an absolute one).
\<close>

text \<open>The pieces of a string between its \<open>/\<close> characters, empty pieces included.\<close>

fun split_slash :: "string \<Rightarrow> string list" where
  "split_slash [] = [[]]"
| "split_slash (c # cs) =
     (if c = CHR ''/'' then [] # split_slash cs
      else (case split_slash cs of [] \<Rightarrow> [[c]] | w # ws \<Rightarrow> (c # w) # ws))"

text \<open>The segments put together again, a \<open>/\<close> between two neighbours.\<close>

fun join_slash :: "string list \<Rightarrow> string" where
  "join_slash [] = []"
| "join_slash [s] = s"
| "join_slash (s # t # ts) = s @ CHR ''/'' # join_slash (t # ts)"

text \<open>
  One segment of \<open>normalizeString\<close>. The result built so far is a stack of segments, the
  last one first. \<open>allowAboveRoot\<close> is true for a relative path.
\<close>

fun norm_seg :: "bool \<Rightarrow> string list \<Rightarrow> string \<Rightarrow> string list" where
  "norm_seg allowAboveRoot res seg =
     (if seg = [] \<or> seg = ''.'' then res
      else if seg = ''..'' then
        (case res of
           [] \<Rightarrow> if allowAboveRoot then [''..''] else []
         | t # ts \<Rightarrow>
             if t = ''..'' then (if allowAboveRoot then ''..'' # res else res) else ts)
      else seg # res)"

definition normalizeSegments :: "bool \<Rightarrow> string list \<Rightarrow> string list" where
  "normalizeSegments allowAboveRoot ss = rev (foldl (norm_seg allowAboveRoot) [] ss)"

definition normalizeString :: "string \<Rightarrow> bool \<Rightarrow> string" where
  "normalizeString p allowAboveRoot =
     join_slash (normalizeSegments allowAboveRoot (split_slash p))"

definition isAbsolute :: "string \<Rightarrow> bool" where
  "isAbsolute p = (p \<noteq> [] \<and> hd p = CHR ''/'')"

definition normalize_path :: "string \<Rightarrow> string" where
  "normalize_path p =
     (if p = [] then ''.''
      else
        let trailingSeparator = (last p = CHR ''/'');
            q = normalizeString p (\<not> isAbsolute p)
        in if q = [] then
             (if isAbsolute p then ''/'' else if trailingSeparator then ''./'' else ''.'')
           else (if isAbsolute p then ''/'' else []) @ q
                @ (if trailingSeparator then ''/'' else []))"

text \<open>\<open>path.join\<close> on arguments that are all strings.\<close>

definition join_strings :: "string list \<Rightarrow> string" where
  "join_strings args =
     (let joined = filter (\<lambda>a. a \<noteq> []) args
      in if joined = [] then ''.'' else normalize_path (join_slash joined))"

text \<open>
  \<open>path.dirname\<close>: trailing slashes are skipped, then everything up to the last slash
  that is not the first character is kept. The loop of the source runs from the last
  character down to the second one.
\<close>

definition dirname :: "string \<Rightarrow> string" where
  "dirname p =
     (if p = [] then ''.''
      else
        let hasRoot = (hd p = CHR ''/'');
            r = dropWhile (\<lambda>c. c \<noteq> CHR ''/'')
                  (dropWhile (\<lambda>c. c = CHR ''/'') (rev (tl p)))
        in if r = [] then (if hasRoot then ''/'' else ''.'')
           else if hasRoot \<and> tl r = [] then ''//''
           else hd p # rev (tl r))"

text \<open>
  The file system resolves an absolute path by its non-empty components (there are no
  symbolic links in a workspace that only this server writes).
\<close>

definition segs :: "string \<Rightarrow> string list" where
  "segs p = filter (\<lambda>s. s \<noteq> []) (split_slash p)"

section \<open>Request values\<close>

text \<open>
  \<open>express.json()\<close> parses the request body; the handlers destructure its fields. A field
  that is absent is \<open>Undefined\<close>. \<open>Num\<close> is a JSON number (the handlers only ask whether it
  is zero), \<open>Arr\<close> an array, \<open>Obj\<close> a parsed object with its own properties. The
  \<open>files\<close> field of load-project, which line 49 tests with \<open>Array.isArray\<close>, is passed
  as \<open>Some\<close> of its elements when it is an array, and as \<open>None\<close> when it is absent or
  is anything else.
\<close>

datatype jsval = Undefined | Null | Bool bool | Num int | Str string
  | Arr "jsval list" | Obj "(string \<times> jsval) list"

fun truthy :: "jsval \<Rightarrow> bool" where
  "truthy Undefined = False"
| "truthy Null = False"
| "truthy (Bool b) = b"
| "truthy (Num n) = (n \<noteq> 0)"
| "truthy (Str s) = (s \<noteq> [])"
| "truthy (Arr vs) = True"
| "truthy (Obj kvs) = True"

text \<open>
  What a handler catches: a TypeError, an error of the file system (which of its codes
  is not modelled), or a failure of the engine to start.
\<close>

datatype err = TypeError | FsError | EngineFailure

text \<open>
  \<open>file.path\<close>, \<open>file.content\<close>: reading a property of \<open>null\<close> raises a TypeError; a
  string, a number, a boolean and an array have neither property.
\<close>

fun get_prop :: "jsval \<Rightarrow> string \<Rightarrow> err + jsval" where
  "get_prop Undefined k = Inl TypeError"
| "get_prop Null k = Inl TypeError"
| "get_prop (Obj kvs) k = Inr (case map_of kvs k of None \<Rightarrow> Undefined | Some v \<Rightarrow> v)"
| "get_prop v k = Inr Undefined"

section \<open>The disk\<close>

text \<open>
  The part of \<open>fs/promises\<close> that server.js uses: \<open>mkdir\<close> with \<open>recursive: true\<close>,
  \<open>writeFile\<close> and \<open>rm\<close> with \<open>recursive: true, force: true\<close>. A disk maps the components
  of an absolute path to a file with its text or to a directory; the root is a directory.
  Permissions, quotas and name-length limits are not modelled.
\<close>

datatype node = File string | Dir

type_synonym disk = "string list \<Rightarrow> node option"

fun is_file :: "disk \<Rightarrow> string list \<Rightarrow> bool" where
  "is_file d k = (case d k of Some (File c) \<Rightarrow> True | _ \<Rightarrow> False)"

fun node_at :: "disk \<Rightarrow> string list \<Rightarrow> node option" where
  "node_at d k = (if k = [] then Some Dir else d k)"

text \<open>
  \<open>mkdir(p, {recursive: true})\<close> creates every missing directory on the way to \<open>p\<close> and
  accepts directories that exist; a file on the way makes it fail.
\<close>

definition mkdir_recursive :: "string \<Rightarrow> disk \<Rightarrow> err + disk" where
  "mkdir_recursive p d =
     (if CHR 0x00 \<in> set p then Inl TypeError
      else case find (is_file d) (prefixes (segs p)) of
             Some q \<Rightarrow> Inl FsError
           | None \<Rightarrow> Inr (\<lambda>k. if prefix k (segs p) \<and> d k = None then Some Dir else d k))"

text \<open>
  \<open>writeFile(p, data, 'utf-8')\<close> takes a string, or an iterable of chunks, which for a
  request value means an array. It opens \<open>p\<close> for writing: the directory of \<open>p\<close> must
  exist, and \<open>p\<close> must not name a directory, nor end in a slash. A string is written whole.
  The chunks of an array are written one after the other, each a string; a chunk that is
  \<open>null\<close>, a boolean or a number raises a TypeError, and the file keeps what was written
  before it. A chunk that is itself an array or an object is turned into bytes by
  \<open>Buffer.from\<close> when it is array-like; that conversion is not modelled, and the model
  treats such a chunk as one that raises. Any other data raises a TypeError before the
  file is opened.
\<close>

definition open_w :: "string \<Rightarrow> disk \<Rightarrow> err option" where
  "open_w p d =
     (if CHR 0x00 \<in> set p then Some TypeError
      else if segs p = [] then Some FsError
      else (case node_at d (butlast (segs p)) of
              None \<Rightarrow> Some FsError
            | Some (File c) \<Rightarrow> Some FsError
            | Some Dir \<Rightarrow>
                (case d (segs p) of
                   Some Dir \<Rightarrow> Some FsError
                 | _ \<Rightarrow> if last p = CHR ''/'' then Some FsError else None)))"

text \<open>The text of chunks that are all strings.\<close>

fun chunks_text :: "jsval list \<Rightarrow> string option" where
  "chunks_text [] = Some []"
| "chunks_text (Str s # cs) = map_option ((@) s) (chunks_text cs)"
| "chunks_text (v # cs) = None"

text \<open>The text of the chunks before the first one that is not a string.\<close>

fun chunks_before :: "jsval list \<Rightarrow> string" where
  "chunks_before (Str s # cs) = s @ chunks_before cs"
| "chunks_before cs = []"

text \<open>The text that a write of the data stores, when it stores all of it.\<close>

fun data_text :: "jsval \<Rightarrow> string option" where
  "data_text (Str s) = Some s"
| "data_text (Arr cs) = chunks_text cs"
| "data_text v = None"

definition writeFile :: "string \<Rightarrow> jsval \<Rightarrow> disk \<Rightarrow> err + disk" where
  "writeFile p data d =
     (case data of
        Str s \<Rightarrow>
          (case open_w p d of Some e \<Rightarrow> Inl e | None \<Rightarrow> Inr (d(segs p \<mapsto> File s)))
      | Arr cs \<Rightarrow>
          (case open_w p d of
             Some e \<Rightarrow> Inl e
           | None \<Rightarrow>
               (case chunks_text cs of
                  Some s \<Rightarrow> Inr (d(segs p \<mapsto> File s))
                | None \<Rightarrow> Inl TypeError))
      | _ \<Rightarrow> Inl TypeError)"

text \<open>The disk that a write leaves when it raises.\<close>

definition failed_write :: "string \<Rightarrow> jsval \<Rightarrow> disk \<Rightarrow> disk" where
  "failed_write p data d =
     (case data of
        Arr cs \<Rightarrow>
          if open_w p d = None \<and> chunks_text cs = None
          then d(segs p \<mapsto> File (chunks_before cs)) else d
      | _ \<Rightarrow> d)"

text \<open>
  \<open>rm(p, {recursive: true, force: true})\<close> that succeeds removes \<open>p\<close> and all below it.
\<close>

definition rm_recursive :: "string \<Rightarrow> disk \<Rightarrow> disk" where
  "rm_recursive p d = (\<lambda>k. if prefix (segs p) k then None else d k)"

section \<open>The server state\<close>

text \<open>
  A value of the \<open>projects\<close> map, as line 92 of server.js stores it. \<open>vite\<close> is the handle
  of the engine instance: the number of the \<open>createViteServer\<close> call that made it.
\<close>

record session =
  vite :: nat
  path :: string
  files :: "jsval list"
  createdAt :: int

text \<open>
  What the handlers do to the disk and to the engines, in the order they do it. The two
  signals of update-file carry what the disk holds at the module's path at the moment
  they are sent: it is what an engine that recompiles on the signal reads.
\<close>

datatype event =
    Wrote string jsval
  | ViteCreated nat string
  | Invalidated nat string "node option"
  | WsSent nat string int "node option"
  | ViteClosed nat
  | RmCalled string
  | ErrorLogged string

text \<open>
  \<open>module_dirname\<close> is the constant \<open>__dirname\<close>. \<open>projects\<close> is the Map of line 32, in
  insertion order. \<open>moduleGraph h\<close> holds the ids that have a node in the module graph of
  engine \<open>h\<close>; the engine fills it as it serves previews. \<open>rm_partial p k\<close> tells
  whether a deletion of \<open>p\<close> that fails has removed \<open>k\<close> before it fails.
\<close>

record server =
  module_dirname :: string
  projects :: "(string \<times> session) list"
  disk :: disk
  moduleGraph :: "nat \<Rightarrow> string set"
  vites :: nat
  events :: "event list"
  rm_partial :: "string \<Rightarrow> string list \<Rightarrow> bool"

definition start :: "string \<Rightarrow> server" where
  "start d = \<lparr>module_dirname = d, projects = [], disk = Map.empty,
     moduleGraph = (\<lambda>h. {}), vites = 0, events = [], rm_partial = (\<lambda>p k. False)\<rparr>"

text \<open>
  \<open>projects.get(projectId)\<close>. Every key of the map is a string (line 56 raises on
  anything else before line 92 is reached), so no other value finds an entry.
\<close>

fun projects_get :: "server \<Rightarrow> jsval \<Rightarrow> session option" where
  "projects_get st (Str s) = map_of (projects st) s"
| "projects_get st v = None"

datatype response =
    InvalidRequest string
  | NotFound string
  | Failure string err
  | Loaded string string
  | Updated

fun status :: "response \<Rightarrow> nat" where
  "status (InvalidRequest m) = 400"
| "status (NotFound m) = 404"
| "status (Failure m e) = 500"
| "status (Loaded i u) = 200"
| "status Updated = 200"

section \<open>POST /load-project\<close>

text \<open>
  The loop of lines 60 to 66. \<open>join\<close> raises a TypeError on an argument that is not a
  string. What was written before an exception stays on the disk.
\<close>

fun write_files :: "string \<Rightarrow> jsval list \<Rightarrow> server \<Rightarrow> err option \<times> server" where
  "write_files projectPath [] st = (None, st)"
| "write_files projectPath (file # rest) st =
     (case get_prop file ''path'' of
        Inl e \<Rightarrow> (Some e, st)
      | Inr (Str p) \<Rightarrow>
          (case mkdir_recursive (dirname (join_strings [projectPath, p])) (disk st) of
             Inl e \<Rightarrow> (Some e, st)
           | Inr d1 \<Rightarrow>
               (case get_prop file ''content'' of
                  Inl e \<Rightarrow> (Some e, st\<lparr>disk := d1\<rparr>)
                | Inr content \<Rightarrow>
                    (case writeFile (join_strings [projectPath, p]) content d1 of
                       Inl e \<Rightarrow>
                         (Some e,
                          st\<lparr>disk := failed_write (join_strings [projectPath, p]) content d1\<rparr>)
                     | Inr d2 \<Rightarrow>
                         write_files projectPath rest
                           (st\<lparr>disk := d2,
                               events := events st
                                 @ [Wrote (join_strings [projectPath, p]) content]\<rparr>))))
      | Inr v \<Rightarrow> (Some TypeError, st))"

text \<open>
  \<open>now\<close> is what \<open>Date.now()\<close> returns on line 96, \<open>engine_starts\<close> whether
  \<open>createViteServer\<close> returns a server rather than raising.
\<close>

definition load_project ::
  "int \<Rightarrow> bool \<Rightarrow> jsval \<Rightarrow> jsval list option \<Rightarrow> server \<Rightarrow> response \<times> server" where
  "load_project now engine_starts projectId fileArray st =
     (case fileArray of
        None \<Rightarrow> (InvalidRequest ''Invalid request: projectId and files required'', st)
      | Some fl \<Rightarrow>
          if \<not> truthy projectId
          then (InvalidRequest ''Invalid request: projectId and files required'', st)
          else (case projectId of
             Str pid \<Rightarrow>
               (case mkdir_recursive
                       (join_strings [module_dirname st, ''projects'', pid]) (disk st) of
                  Inl e \<Rightarrow> (Failure ''Failed to load project'' e, st)
                | Inr d1 \<Rightarrow>
                    (case write_files (join_strings [module_dirname st, ''projects'', pid])
                            fl (st\<lparr>disk := d1\<rparr>) of
                       (Some e, st2) \<Rightarrow> (Failure ''Failed to load project'' e, st2)
                     | (None, st2) \<Rightarrow>
                         if \<not> engine_starts
                         then (Failure ''Failed to load project'' EngineFailure, st2)
                         else
                           (Loaded pid (''/preview/'' @ pid),
                            st2\<lparr>vites := Suc (vites st2),
                                moduleGraph := (moduleGraph st2)(vites st2 := {}),
                                events := events st2
                                  @ [ViteCreated (vites st2)
                                       (join_strings [module_dirname st, ''projects'', pid])],
                                projects :=
                                  AList.update pid
                                    \<lparr>vite = vites st2,
                                     path = join_strings [module_dirname st, ''projects'', pid],
                                     files = fl, createdAt = now\<rparr>
                                    (projects st2)\<rparr>)))
           | _ \<Rightarrow> (Failure ''Failed to load project'' TypeError, st)))"

section \<open>POST /update-file\<close>

definition update_file ::
  "int \<Rightarrow> jsval \<Rightarrow> jsval \<Rightarrow> jsval \<Rightarrow> server \<Rightarrow> response \<times> server" where
  "update_file now projectId p content st =
     (if \<not> truthy projectId \<or> \<not> truthy p \<or> content = Undefined
      then (InvalidRequest ''Invalid request'', st)
      else case projects_get st projectId of
        None \<Rightarrow> (NotFound ''Project not found'', st)
      | Some project \<Rightarrow>
          (case p of
             Str ps \<Rightarrow>
               (case writeFile (join_strings [path project, ps]) content (disk st) of
                  Inl e \<Rightarrow>
                    (Failure ''Failed to update file'' e,
                     st\<lparr>disk :=
                          failed_write (join_strings [path project, ps]) content (disk st)\<rparr>)
                | Inr d1 \<Rightarrow>
                    (Updated,
                     st\<lparr>disk := d1,
                        events := events st
                          @ [Wrote (join_strings [path project, ps]) content]
                          @ (if join_strings [path project, ps]
                                  \<in> moduleGraph st (vite project)
                             then [Invalidated (vite project)
                                     (join_strings [path project, ps])
                                     (d1 (segs (join_strings [path project, ps]))),
                                   WsSent (vite project)
                                     (join_strings [path project, ps]) now
                                     (d1 (segs (join_strings [path project, ps])))]
                             else [])\<rparr>))
           | _ \<Rightarrow> (Failure ''Failed to update file'' TypeError, st)))"

section \<open>The cleanup timer and the shutdown handler\<close>

definition MAX_AGE :: int where
  "MAX_AGE = 30 * 60 * 1000"

text \<open>
  The loop of lines 199 to 208 over the entries of the map. \<open>rm_ok\<close> tells whether the
  deletion that \<open>fs.rm\<close> starts for a path succeeds; a failure reaches \<open>console.error\<close>
  and nothing else, and has removed what \<open>rm_partial\<close> says. The deletion runs after the
  loop; its outcome is recorded where the loop starts it, which changes nothing of what the
  loop does to the map and to the engines.
\<close>

fun sweep :: "int \<Rightarrow> (string \<Rightarrow> bool) \<Rightarrow> (string \<times> session) list \<Rightarrow> server \<Rightarrow> server" where
  "sweep now rm_ok [] st = st"
| "sweep now rm_ok ((projectId, project) # rest) st =
     (if now - createdAt project > MAX_AGE
      then sweep now rm_ok rest
             (st\<lparr>events := events st
                    @ [ViteClosed (vite project), RmCalled (path project)]
                    @ (if rm_ok (path project) then [] else [ErrorLogged (path project)]),
                 projects := AList.delete projectId (projects st),
                 disk := (if rm_ok (path project)
                          then rm_recursive (path project) (disk st)
                          else (\<lambda>k. if prefix (segs (path project)) k
                                       \<and> rm_partial st (path project) k
                                    then None else disk st k))\<rparr>)
      else sweep now rm_ok rest st)"

definition cleanup :: "int \<Rightarrow> (string \<Rightarrow> bool) \<Rightarrow> server \<Rightarrow> server" where
  "cleanup now rm_ok st = sweep now rm_ok (projects st) st"

text \<open>The SIGTERM handler closes the engine of every entry of the map, then exits.\<close>

definition sigterm :: "server \<Rightarrow> server" where
  "sigterm st = st\<lparr>events := events st @ map (\<lambda>e. ViteClosed (vite (snd e))) (projects st)\<rparr>"

section \<open>Notions of the statements\<close>

text \<open>A plain segment: one name, neither empty nor \<open>.\<close> nor \<open>..\<close>.\<close>

definition plain :: "string \<Rightarrow> bool" where
  "plain s = (s \<noteq> [] \<and> s \<noteq> ''.'' \<and> s \<noteq> ''..'' \<and> CHR ''/'' \<notin> set s)"

text \<open>
  A path read as a relative one (a leading slash counts for nothing) and normalised is a
  number of \<open>..\<close> segments followed by segments that are names: \<open>climb\<close> is that number,
  \<open>descent\<close> are the names.
\<close>

definition climb :: "string \<Rightarrow> nat" where
  "climb p = length (takeWhile (\<lambda>s. s = ''..'') (normalizeSegments True (segs p)))"

definition descent :: "string \<Rightarrow> string list" where
  "descent p = dropWhile (\<lambda>s. s = ''..'') (normalizeSegments True (segs p))"

text \<open>An absolute path in normal form.\<close>

definition normal_abs :: "string \<Rightarrow> bool" where
  "normal_abs p = (isAbsolute p \<and> (\<forall>s\<in>set (segs p). plain s))"

text \<open>
  The path and the text of an entry of the \<open>files\<close> array; an entry is well formed when
  both are strings. \<open>target\<close> is the file the entry is written to.
\<close>

definition entry_path :: "jsval \<Rightarrow> string" where
  "entry_path e = (case get_prop e ''path'' of Inr (Str p) \<Rightarrow> p | _ \<Rightarrow> [])"

definition entry_text :: "jsval \<Rightarrow> string" where
  "entry_text e = (case get_prop e ''content'' of Inr (Str c) \<Rightarrow> c | _ \<Rightarrow> [])"

definition well_formed :: "jsval \<Rightarrow> bool" where
  "well_formed e =
     (case get_prop e ''path'' of
        Inr (Str p) \<Rightarrow> (case get_prop e ''content'' of Inr (Str c) \<Rightarrow> True | _ \<Rightarrow> False)
      | _ \<Rightarrow> False)"

definition target :: "string \<Rightarrow> jsval \<Rightarrow> string list" where
  "target ws e = segs (join_strings [ws, entry_path e])"

text \<open>The events by which update-file tells an engine that a module changed.\<close>

fun is_signal :: "event \<Rightarrow> bool" where
  "is_signal (Invalidated h i n) = True"
| "is_signal (WsSent h i t n) = True"
| "is_signal e = False"

text \<open>A sequence of update-file requests, each with the time it is served at.\<close>

fun updates :: "(int \<times> jsval \<times> jsval \<times> jsval) list \<Rightarrow> server \<Rightarrow> server" where
  "updates [] st = st"
| "updates ((now, projectId, p, content) # reqs) st =
     updates reqs (snd (update_file now projectId p content st))"

text \<open>The test of line 200, and what the loop does with an entry that passes it.\<close>

definition old :: "int \<Rightarrow> string \<times> session \<Rightarrow> bool" where
  "old now e = (now - createdAt (snd e) > MAX_AGE)"

definition eviction :: "(string \<Rightarrow> bool) \<Rightarrow> string \<times> session \<Rightarrow> event list" where
  "eviction rm_ok e =
     [ViteClosed (vite (snd e)), RmCalled (path (snd e))]
     @ (if rm_ok (path (snd e)) then [] else [ErrorLogged (path (snd e))])"

text \<open>
  Every entry of the map has an engine of its own, one that \<open>createViteServer\<close> has
  returned.
\<close>

definition handles_ok :: "server \<Rightarrow> bool" where
  "handles_ok st =
     (distinct (map (\<lambda>e. vite (snd e)) (projects st))
      \<and> (\<forall>e\<in>set (projects st). vite (snd e) < vites st))"

section \<open>A running example\<close>

text \<open>
  A server installed in \<open>/app\<close> on an empty disk, after it has loaded project \<open>p\<close> with
  two files at time 1000; and the same server once its engine has served \<open>b.js\<close>.
\<close>

definition demo_files :: "jsval list" where
  "demo_files =
     [Obj [(''path'', Str ''/src/a.js''), (''content'', Str ''1'')],
      Obj [(''path'', Str ''b.js''), (''content'', Str ''2'')]]"

definition demo :: server where
  "demo = snd (load_project 1000 True (Str ''p'') (Some demo_files) (start ''/app''))"


text \<open>The example after a second project was loaded at time 1500000.\<close>

definition two :: server where
  "two = snd (load_project 1500000 True (Str ''q'')
                (Some [Obj [(''path'', Str ''index.html''), (''content'', Str ''hi'')]]) demo)"

text \<open>The example after project \<open>p\<close> was loaded a second time, at time 2000.\<close>

definition reloaded :: server where
  "reloaded = snd (load_project 2000 True (Str ''p'') (Some []) demo)"

text \<open>The example after a project with the id \<open>p/src\<close> was loaded at time 3000.\<close>

definition nested :: server where
  "nested = snd (load_project 3000 True (Str ''p/src'') (Some []) demo)"

text \<open>
  The example after a project with the id \<open>./p\<close> was loaded at time 1500000: its
  workspace is the workspace of \<open>p\<close>.
\<close>

definition shared :: server where
  "shared = snd (load_project 1500000 True (Str ''./p'')
                   (Some [Obj [(''path'', Str ''x.js''), (''content'', Str ''hi'')]]) demo)"

text \<open>Three \<open>files\<close> arrays.\<close>

definition escaping :: "jsval list" where
  "escaping = [Obj [(''path'', Str ''../../server.js''), (''content'', Str ''gone'')]]"

definition more_files :: "jsval list" where
  "more_files = [Obj [(''path'', Str ''c.js''), (''content'', Str ''3'')]]"

definition same_path :: "jsval list" where
  "same_path = [Obj [(''path'', Str ''a.js''), (''content'', Str ''1'')],
                Obj [(''path'', Str ''./a.js''), (''content'', Str ''2'')]]"

section \<open>Paths: normal forms\<close>

text \<open>
  What the file system makes of the result of \<open>join\<close>: for an absolute first argument,
  the components of the joined path are the normalised components of the arguments.
\<close>

lemma split_slash_nonempty: "split_slash p \<noteq> []"
  by (induction p) (auto split: list.splits)

lemma split_slash_no_slash: "s \<in> set (split_slash p) \<Longrightarrow> CHR ''/'' \<notin> set s"
  by (induction p arbitrary: s) (auto split: list.splits if_splits)

lemma split_slash_append: "split_slash (a @ CHR ''/'' # b) = split_slash a @ split_slash b"
  by (induction a) (auto split: list.splits simp: split_slash_nonempty)

lemma segs_Nil: "segs [] = []"
  by (simp add: segs_def)

lemma segs_append: "segs (a @ CHR ''/'' # b) = segs a @ segs b"
  by (simp add: segs_def split_slash_append)

lemma segs_slash_Cons: "segs (CHR ''/'' # b) = segs b"
  by (simp add: segs_def)

lemma segs_append_slash: "segs (a @ ''/'') = segs a"
  using segs_append [of a "[]"] by (simp add: segs_Nil)

lemma split_slash_plain: "CHR ''/'' \<notin> set s \<Longrightarrow> split_slash s = [s]"
  by (induction s) (auto split: list.splits)

lemma segs_plain: "CHR ''/'' \<notin> set s \<Longrightarrow> s \<noteq> [] \<Longrightarrow> segs s = [s]"
  by (simp add: segs_def split_slash_plain)

lemma segs_no_slash: "s \<in> set (segs p) \<Longrightarrow> CHR ''/'' \<notin> set s \<and> s \<noteq> []"
  by (auto simp: segs_def dest: split_slash_no_slash)

lemma segs_join_slash: "segs (join_slash xs) = concat (map segs xs)"
  by (induction xs rule: join_slash.induct) (simp_all add: segs_Nil segs_append)

lemma concat_segs_filter: "concat (map segs (filter (\<lambda>a. a \<noteq> []) xs)) = concat (map segs xs)"
  by (induction xs) (simp_all add: segs_Nil)

lemma segs_join_slash_id:
  "\<forall>s\<in>set xs. CHR ''/'' \<notin> set s \<and> s \<noteq> [] \<Longrightarrow> segs (join_slash xs) = xs"
  by (induction xs) (simp_all add: segs_join_slash segs_plain segs_Nil)

lemma join_slash_Nil_iff: "\<forall>s\<in>set xs. s \<noteq> [] \<Longrightarrow> join_slash xs = [] \<longleftrightarrow> xs = []"
  by (induction xs rule: join_slash.induct) auto

lemma norm_seg_skip: "seg = [] \<or> seg = ''.'' \<Longrightarrow> norm_seg b res seg = res"
  by simp

lemma norm_seg_dotdot:
  "norm_seg b res ''..'' =
     (case res of [] \<Rightarrow> if b then [''..''] else []
      | t # ts \<Rightarrow> if t = ''..'' then (if b then ''..'' # res else res) else ts)"
  by simp

lemma norm_seg_push:
  "seg \<noteq> [] \<Longrightarrow> seg \<noteq> ''.'' \<Longrightarrow> seg \<noteq> ''..'' \<Longrightarrow> norm_seg b res seg = seg # res"
  by simp

declare norm_seg.simps [simp del]

lemma norm_seg_plain: "plain s \<Longrightarrow> norm_seg b res s = s # res"
  by (simp add: plain_def norm_seg_push)

lemma foldl_norm_seg_plain:
  "\<forall>s\<in>set xs. plain s \<Longrightarrow> foldl (norm_seg b) res xs = rev xs @ res"
  by (induction xs arbitrary: res) (simp_all add: norm_seg_plain)

lemma norm_seg_False_plain:
  assumes "\<forall>s\<in>set res. plain s" and "CHR ''/'' \<notin> set seg"
  shows "\<forall>s\<in>set (norm_seg False res seg). plain s"
proof (cases "seg = [] \<or> seg = ''.''")
  case True
  then show ?thesis using assms(1) by (simp only: norm_seg_skip)
next
  case False
  show ?thesis
  proof (cases "seg = ''..''")
    case True
    then show ?thesis using assms(1) by (cases res) (auto simp: norm_seg_dotdot plain_def)
  next
    case False
    with \<open>\<not> (seg = [] \<or> seg = ''.'')\<close> have "plain seg"
      using assms(2) by (simp add: plain_def)
    then show ?thesis using assms(1) by (simp add: norm_seg_plain)
  qed
qed

lemma foldl_norm_seg_False_plain:
  "\<forall>s\<in>set res. plain s \<Longrightarrow> \<forall>s\<in>set xs. CHR ''/'' \<notin> set s
     \<Longrightarrow> \<forall>s\<in>set (foldl (norm_seg False) res xs). plain s"
proof (induction xs arbitrary: res)
  case Nil
  then show ?case by simp
next
  case (Cons x xs)
  have "\<forall>s\<in>set (norm_seg False res x). plain s"
    using Cons.prems by (intro norm_seg_False_plain) auto
  then show ?case
    using Cons.IH [of "norm_seg False res x"] Cons.prems by simp
qed

lemma normalizeSegments_False_plain:
  "\<forall>s\<in>set xs. CHR ''/'' \<notin> set s \<Longrightarrow> \<forall>s\<in>set (normalizeSegments False xs). plain s"
  using foldl_norm_seg_False_plain [of "[]" xs] by (simp add: normalizeSegments_def)

lemma foldl_norm_seg_filter:
  "foldl (norm_seg b) res (filter (\<lambda>s. s \<noteq> []) xs) = foldl (norm_seg b) res xs"
  by (induction xs arbitrary: res) (simp_all add: norm_seg_skip)

lemma normalizeSegments_split: "normalizeSegments b (split_slash p) = normalizeSegments b (segs p)"
  by (simp add: normalizeSegments_def segs_def foldl_norm_seg_filter)

lemma segs_normalize_path:
  assumes "isAbsolute p"
  shows "segs (normalize_path p) = normalizeSegments False (segs p)"
proof -
  let ?S = "normalizeSegments False (split_slash p)"
  have pl: "\<forall>s\<in>set ?S. plain s"
    by (rule normalizeSegments_False_plain) (auto dest: split_slash_no_slash)
  then have ne: "\<forall>s\<in>set ?S. CHR ''/'' \<notin> set s \<and> s \<noteq> []"
    by (simp add: plain_def)
  have js: "segs (join_slash ?S) = ?S"
    by (rule segs_join_slash_id [OF ne])
  have nil: "join_slash ?S = [] \<longleftrightarrow> ?S = []"
    by (rule join_slash_Nil_iff) (use ne in blast)
  show ?thesis
  proof (cases "?S = []")
    case True
    then show ?thesis
      using assms nil
      by (simp add: normalize_path_def normalizeString_def isAbsolute_def
          normalizeSegments_split [symmetric] segs_slash_Cons segs_Nil Let_def)
  next
    case False
    then show ?thesis
      using assms nil js
      by (simp add: normalize_path_def normalizeString_def isAbsolute_def
          normalizeSegments_split [symmetric] segs_slash_Cons segs_append_slash Let_def)
  qed
qed

lemma isAbsolute_join_slash:
  "isAbsolute a \<Longrightarrow> isAbsolute (join_slash (filter (\<lambda>s. s \<noteq> []) (a # rest)))"
  by (cases "filter (\<lambda>s. s \<noteq> []) rest") (auto simp: isAbsolute_def)

lemma segs_join_strings:
  assumes "isAbsolute a"
  shows "segs (join_strings (a # rest)) = normalizeSegments False (concat (map segs (a # rest)))"
proof -
  have "a \<noteq> []" using assms by (auto simp: isAbsolute_def)
  then have "join_strings (a # rest) = normalize_path (join_slash (filter (\<lambda>s. s \<noteq> []) (a # rest)))"
    by (simp add: join_strings_def)
  then show ?thesis
    using segs_normalize_path [OF isAbsolute_join_slash [OF assms, of rest]]
    by (simp only: segs_join_slash concat_segs_filter)
qed

lemma isAbsolute_normalize_path: "isAbsolute p \<Longrightarrow> isAbsolute (normalize_path p)"
  by (auto simp: normalize_path_def isAbsolute_def Let_def)

lemma isAbsolute_join_strings: "isAbsolute a \<Longrightarrow> isAbsolute (join_strings (a # rest))"
  using isAbsolute_normalize_path [OF isAbsolute_join_slash [of a rest]]
  by (auto simp: join_strings_def isAbsolute_def)

lemma norm_seg_both:
  assumes "''..'' \<notin> set u" and "''..'' \<notin> set B"
  shows "\<exists>u' n'. norm_seg True (u @ replicate n ''..'') seg = u' @ replicate n' ''..''
           \<and> ''..'' \<notin> set u'
           \<and> norm_seg False (u @ drop n B) seg = u' @ drop n' B"
proof (cases "seg = [] \<or> seg = ''.''")
  case True
  with assms(1) show ?thesis by (auto simp only: norm_seg_skip)
next
  case False
  show ?thesis
  proof (cases "seg = ''..''")
    case dd: True
    show ?thesis
    proof (cases u)
      case (Cons t ts)
      with assms(1) have "t \<noteq> ''..''" "''..'' \<notin> set ts" by auto
      with Cons dd show ?thesis by (auto simp: norm_seg_dotdot)
    next
      case Nil
      have T: "norm_seg True (replicate n ''..'') ''..'' = [] @ replicate (Suc n) ''..''"
        by (cases n) (simp_all add: norm_seg_dotdot)
      have F: "norm_seg False (drop n B) ''..'' = [] @ drop (Suc n) B"
      proof (cases "drop n B")
        case Nil
        then show ?thesis by (simp add: norm_seg_dotdot)
      next
        case (Cons t ts)
        then have "t \<in> set B" by (metis in_set_dropD list.set_intros(1))
        with assms(2) have "t \<noteq> ''..''" by auto
        moreover from Cons have "drop (Suc n) B = ts"
          by (metis drop_Suc list.sel(3) tl_drop)
        ultimately show ?thesis using Cons by (simp add: norm_seg_dotdot)
      qed
      from T F Nil dd show ?thesis by (metis append_Nil empty_iff list.set(1))
    qed
  next
    case nd: False
    with False have "norm_seg True (u @ replicate n ''..'') seg = (seg # u) @ replicate n ''..''"
      "norm_seg False (u @ drop n B) seg = (seg # u) @ drop n B"
      by (simp_all add: norm_seg_push)
    moreover have "''..'' \<notin> set (seg # u)" using nd assms(1) by auto
    ultimately show ?thesis by blast
  qed
qed

lemma foldl_norm_seg_both:
  assumes "''..'' \<notin> set B"
  shows "''..'' \<notin> set u \<Longrightarrow>
         \<exists>u' n'. foldl (norm_seg True) (u @ replicate n ''..'') xs = u' @ replicate n' ''..''
           \<and> ''..'' \<notin> set u'
           \<and> foldl (norm_seg False) (u @ drop n B) xs = u' @ drop n' B"
proof (induction xs arbitrary: u n)
  case Nil
  then show ?case by auto
next
  case (Cons x xs)
  from norm_seg_both [OF Cons.prems assms, of n x]
  obtain u1 n1 where 1: "norm_seg True (u @ replicate n ''..'') x = u1 @ replicate n1 ''..''"
    "''..'' \<notin> set u1" "norm_seg False (u @ drop n B) x = u1 @ drop n1 B"
    by blast
  from Cons.IH [OF 1(2), of n1] 1(1,3) show ?case by simp
qed

lemma takeWhile_replicate_append:
  "a \<notin> set ys \<Longrightarrow> takeWhile (\<lambda>s. s = a) (replicate n a @ ys) = replicate n a"
  "a \<notin> set ys \<Longrightarrow> dropWhile (\<lambda>s. s = a) (replicate n a @ ys) = ys"
  by (induction n) (auto simp: takeWhile_eq_Nil_iff dropWhile_eq_self_iff intro: hd_in_set)

lemma normal_abs_join_strings:
  assumes "isAbsolute a"
  shows "normal_abs (join_strings (a # rest))"
proof -
  have "\<forall>s\<in>set (concat (map segs (a # rest))). CHR ''/'' \<notin> set s"
    by (auto dest: segs_no_slash)
  then have "\<forall>s\<in>set (normalizeSegments False (concat (map segs (a # rest)))). plain s"
    by (rule normalizeSegments_False_plain)
  then show ?thesis
    unfolding normal_abs_def
    by (simp only: segs_join_strings [OF assms] isAbsolute_join_strings [OF assms] simp_thms)
qed

section \<open>Paths: joining below a directory\<close>

text \<open>
  Joining a path to a directory in normal form: each \<open>..\<close> that the path starts with
  removes the last component of the directory, and the names of the path follow.
\<close>

lemma normalizeSegments_climb:
  assumes "\<forall>s\<in>set W. plain s"
  shows "normalizeSegments False (W @ segs p) = take (length W - climb p) W @ descent p"
proof -
  have B: "''..'' \<notin> set (rev W)" using assms by (auto simp: plain_def)
  from foldl_norm_seg_both [OF B, of "[]" 0 "segs p"]
  obtain u n where un: "foldl (norm_seg True) [] (segs p) = u @ replicate n ''..''"
    "''..'' \<notin> set u" "foldl (norm_seg False) (rev W) (segs p) = u @ drop n (rev W)"
    by auto
  have nf: "normalizeSegments True (segs p) = replicate n ''..'' @ rev u"
    by (simp add: normalizeSegments_def un(1))
  have r: "''..'' \<notin> set (rev u)" using un(2) by simp
  have c: "climb p = n" and d: "descent p = rev u"
    by (simp_all add: climb_def descent_def nf takeWhile_replicate_append [OF r])
  have "normalizeSegments False (W @ segs p) = rev (foldl (norm_seg False) (rev W) (segs p))"
    using assms by (simp add: normalizeSegments_def foldl_norm_seg_plain)
  also have "\<dots> = take (length W - n) W @ rev u"
    by (simp add: un(3) rev_drop)
  finally show ?thesis by (simp add: c d)
qed

lemma segs_join_climb:
  assumes "normal_abs ws"
  shows "segs (join_strings [ws, p])
           = take (length (segs ws) - climb p) (segs ws) @ descent p"
  using assms segs_join_strings [of ws "[p]"]
  by (simp add: normal_abs_def normalizeSegments_climb)

lemma prefix_take_append:
  "prefix W (take (length W - n) W @ t) \<longleftrightarrow> prefix (drop (length W - n) W) t"
proof -
  have "prefix (take (length W - n) W @ drop (length W - n) W) (take (length W - n) W @ t)
          \<longleftrightarrow> prefix (drop (length W - n) W) t"
    by (rule same_prefix_prefix)
  then show ?thesis by simp
qed

lemma segs_projects_root:
  assumes "isAbsolute d"
  shows "segs (join_strings [d, ''projects'', pid])
           = take (length (segs (join_strings [d, ''projects''])) - climb pid)
               (segs (join_strings [d, ''projects''])) @ descent pid"
proof -
  let ?X = "segs d @ [''projects'']"
  have 1: "segs ''projects'' = [''projects'']" by (rule segs_plain) simp_all
  have D: "segs (join_strings [d, ''projects'']) = normalizeSegments False ?X"
    using segs_join_strings [OF assms, of "[''projects'']"] by (simp add: 1)
  have pl: "\<forall>s\<in>set (normalizeSegments False ?X). plain s"
    by (rule normalizeSegments_False_plain) (auto dest: segs_no_slash)
  have "foldl (norm_seg False) [] (normalizeSegments False ?X) = foldl (norm_seg False) [] ?X"
    using pl by (simp add: foldl_norm_seg_plain) (simp add: normalizeSegments_def)
  then have "normalizeSegments False (?X @ segs pid)
      = normalizeSegments False (normalizeSegments False ?X @ segs pid)"
    by (simp add: normalizeSegments_def)
  also have "\<dots> = take (length (normalizeSegments False ?X) - climb pid)
               (normalizeSegments False ?X) @ descent pid"
    by (rule normalizeSegments_climb [OF pl])
  finally show ?thesis
    using segs_join_strings [OF assms, of "[''projects'', pid]"] by (simp add: 1 D)
qed

lemma plain_normal: "plain s \<Longrightarrow> normalizeSegments True (segs s) = [s]"
  using foldl_norm_seg_plain [of "[s]" True "[]"]
  by (simp add: normalizeSegments_def segs_plain plain_def)

lemma plain_climb: "plain s \<Longrightarrow> climb s = 0 \<and> descent s = [s]"
  by (auto simp: climb_def descent_def plain_normal plain_def)

section \<open>The disk: what the operations change\<close>

text \<open>\<open>mkdir\<close> creates directories only; \<open>writeFile\<close> changes one file.\<close>

lemma mkdir_recursive_files:
  "mkdir_recursive p d = Inr d' \<Longrightarrow> (d' k = Some (File c)) = (d k = Some (File c))"
  by (auto simp: mkdir_recursive_def split: if_splits option.splits)

lemma is_file_iff: "is_file d k \<longleftrightarrow> (\<exists>c. d k = Some (File c))"
  by (auto split: option.splits node.splits)

declare is_file.simps [simp del]

lemma is_file_upd: "is_file (d(k' \<mapsto> File c)) k \<longleftrightarrow> k = k' \<or> is_file d k"
  by (simp add: is_file_iff)

lemma mkdir_recursive_is_file:
  "mkdir_recursive p d = Inr d' \<Longrightarrow> is_file d' k = is_file d k"
  by (simp add: is_file_iff mkdir_recursive_files)

lemma writeFile_Inr:
  assumes "writeFile p v d = Inr d'"
  obtains c where "data_text v = Some c" "d' = d(segs p \<mapsto> File c)"
proof (cases v)
  case (Str c)
  with assms have "d' = d(segs p \<mapsto> File c)"
    by (auto simp: writeFile_def split: option.splits)
  with Str that show ?thesis by simp
next
  case (Arr cs)
  with assms obtain c where "chunks_text cs = Some c" "d' = d(segs p \<mapsto> File c)"
    by (auto simp: writeFile_def split: option.splits)
  with Arr that show ?thesis by simp
qed (use assms in \<open>simp_all add: writeFile_def\<close>)

lemma writeFile_refused:
  "\<forall>s. data \<noteq> Str s \<Longrightarrow> \<forall>cs. data \<noteq> Arr cs
     \<Longrightarrow> writeFile p data d = Inl TypeError \<and> failed_write p data d = d"
  by (cases data) (simp_all add: writeFile_def failed_write_def)

lemma failed_write_other: "k \<noteq> segs p \<Longrightarrow> failed_write p data d k = d k"
  by (cases data) (simp_all add: failed_write_def)

section \<open>update-file: one lemma for each way out of the handler\<close>

lemma update_file_invalid:
  "\<not> truthy projectId \<or> \<not> truthy p \<or> content = Undefined
     \<Longrightarrow> update_file now projectId p content st = (InvalidRequest ''Invalid request'', st)"
  by (simp add: update_file_def)

lemma update_file_unknown:
  "truthy projectId \<Longrightarrow> truthy p \<Longrightarrow> content \<noteq> Undefined \<Longrightarrow> projects_get st projectId = None
     \<Longrightarrow> update_file now projectId p content st = (NotFound ''Project not found'', st)"
  by (simp add: update_file_def)

lemma update_file_known:
  "truthy projectId \<Longrightarrow> ps \<noteq> [] \<Longrightarrow> content \<noteq> Undefined
     \<Longrightarrow> projects_get st projectId = Some project
     \<Longrightarrow> update_file now projectId (Str ps) content st =
       (case writeFile (join_strings [path project, ps]) content (disk st) of
          Inl e \<Rightarrow>
            (Failure ''Failed to update file'' e,
             st\<lparr>disk := failed_write (join_strings [path project, ps]) content (disk st)\<rparr>)
        | Inr d1 \<Rightarrow>
            (Updated,
             st\<lparr>disk := d1,
                events := events st
                  @ [Wrote (join_strings [path project, ps]) content]
                  @ (if join_strings [path project, ps] \<in> moduleGraph st (vite project)
                     then [Invalidated (vite project) (join_strings [path project, ps])
                             (d1 (segs (join_strings [path project, ps]))),
                           WsSent (vite project) (join_strings [path project, ps]) now
                             (d1 (segs (join_strings [path project, ps])))]
                     else [])\<rparr>))"
  by (simp add: update_file_def)

lemma update_file_not_string:
  "truthy projectId \<Longrightarrow> truthy p \<Longrightarrow> content \<noteq> Undefined
     \<Longrightarrow> projects_get st projectId = Some project \<Longrightarrow> \<forall>ps. p \<noteq> Str ps
     \<Longrightarrow> update_file now projectId p content st = (Failure ''Failed to update file'' TypeError, st)"
  by (cases p) (simp_all add: update_file_def)

lemma update_file_status_cases:
  "status (fst (update_file now projectId p content st)) = 400
     \<longleftrightarrow> (\<not> truthy projectId \<or> \<not> truthy p \<or> content = Undefined)"
proof (cases "\<not> truthy projectId \<or> \<not> truthy p \<or> content = Undefined")
  case True
  then show ?thesis by (simp add: update_file_invalid)
next
  case False
  then show ?thesis
    by (simp add: update_file_def split: option.splits jsval.splits sum.splits)
qed

lemma update_file_cases:
  obtains
    (invalid) "\<not> truthy projectId \<or> \<not> truthy p \<or> content = Undefined"
      "update_file now projectId p content st = (InvalidRequest ''Invalid request'', st)"
  | (unknown) "truthy projectId" "truthy p" "content \<noteq> Undefined"
      "projects_get st projectId = None"
      "update_file now projectId p content st = (NotFound ''Project not found'', st)"
  | (not_string) project where "truthy projectId" "truthy p" "content \<noteq> Undefined"
      "projects_get st projectId = Some project" "\<forall>ps. p \<noteq> Str ps"
      "update_file now projectId p content st = (Failure ''Failed to update file'' TypeError, st)"
  | (failed) project ps e where "truthy projectId" "p = Str ps" "ps \<noteq> []"
      "content \<noteq> Undefined" "projects_get st projectId = Some project"
      "writeFile (join_strings [path project, ps]) content (disk st) = Inl e"
      "update_file now projectId p content st =
         (Failure ''Failed to update file'' e,
          st\<lparr>disk := failed_write (join_strings [path project, ps]) content (disk st)\<rparr>)"
  | (written) project ps d1 where "truthy projectId" "p = Str ps" "ps \<noteq> []"
      "content \<noteq> Undefined" "projects_get st projectId = Some project"
      "writeFile (join_strings [path project, ps]) content (disk st) = Inr d1"
      "update_file now projectId p content st =
         (Updated,
          st\<lparr>disk := d1,
             events := events st
               @ [Wrote (join_strings [path project, ps]) content]
               @ (if join_strings [path project, ps] \<in> moduleGraph st (vite project)
                  then [Invalidated (vite project) (join_strings [path project, ps])
                          (d1 (segs (join_strings [path project, ps]))),
                        WsSent (vite project) (join_strings [path project, ps]) now
                          (d1 (segs (join_strings [path project, ps])))]
                  else [])\<rparr>)"
proof (cases "\<not> truthy projectId \<or> \<not> truthy p \<or> content = Undefined")
  case True
  then show ?thesis using invalid update_file_invalid by blast
next
  case valid: False
  show ?thesis
  proof (cases "projects_get st projectId")
    case None
    with valid show ?thesis using unknown update_file_unknown by blast
  next
    case (Some project)
    show ?thesis
    proof (cases "\<exists>ps. p = Str ps")
      case False
      with valid Some show ?thesis using not_string update_file_not_string by blast
    next
      case True
      then obtain ps where ps: "p = Str ps" by blast
      with valid have ne: "ps \<noteq> []" by simp
      show ?thesis
      proof (cases "writeFile (join_strings [path project, ps]) content (disk st)")
        case (Inl e)
        with valid Some ps ne show ?thesis
          using failed [of ps project e] update_file_known [of projectId ps content st project now]
          by simp
      next
        case (Inr d1)
        with valid Some ps ne show ?thesis
          using written [of ps project d1]
            update_file_known [of projectId ps content st project now]
          by simp
      qed
    qed
  qed
qed

lemma update_file_projects: "projects (snd (update_file now projectId p content st)) = projects st"
  by (cases rule: update_file_cases [of projectId p content now st]) simp_all

lemma updates_projects: "projects (updates reqs st) = projects st"
  by (induction reqs st rule: updates.induct) (simp_all add: update_file_projects)

section \<open>The cleanup loop\<close>

text \<open>
  The map, the events and the disk after the loop, in terms of the entries it evicts.
\<close>

lemma delete_filter: "AList.delete k al = filter (\<lambda>e. fst e \<noteq> k) al"
  by (induction al) auto

lemma sweep_Cons:
  "sweep now rm_ok (e # rest) st =
     (if old now e
      then sweep now rm_ok rest
             (st\<lparr>events := events st @ eviction rm_ok e,
                 projects := AList.delete (fst e) (projects st),
                 disk := (if rm_ok (path (snd e))
                          then rm_recursive (path (snd e)) (disk st)
                          else (\<lambda>k. if prefix (segs (path (snd e))) k
                                       \<and> rm_partial st (path (snd e)) k
                                    then None else disk st k))\<rparr>)
      else sweep now rm_ok rest st)"
  by (cases e) (simp add: old_def eviction_def)

lemma sweep_projects:
  "projects (sweep now rm_ok es st)
     = filter (\<lambda>e. fst e \<notin> fst ` set (filter (old now) es)) (projects st)"
proof (induction es arbitrary: st)
  case Nil
  then show ?case by simp
next
  case (Cons e rest)
  show ?case
  proof (cases "old now e")
    case True
    then show ?thesis
      by (simp only: sweep_Cons if_True Cons.IH) (auto simp: delete_filter intro: filter_cong)
  next
    case False
    then show ?thesis by (simp only: sweep_Cons if_False Cons.IH filter.simps)
  qed
qed

lemma sweep_events:
  "events (sweep now rm_ok es st)
     = events st @ concat (map (eviction rm_ok) (filter (old now) es))"
proof (induction es arbitrary: st)
  case Nil
  then show ?case by simp
next
  case (Cons e rest)
  show ?case
  proof (cases "old now e")
    case True
    then show ?thesis by (simp only: sweep_Cons if_True Cons.IH) simp
  next
    case False
    then show ?thesis by (simp only: sweep_Cons if_False Cons.IH filter.simps)
  qed
qed

lemma sweep_projects_cong:
  "projects st = projects st' \<Longrightarrow> projects (sweep t f es st) = projects (sweep t f es st')"
  by (simp only: sweep_projects)

lemma cleanup_projects:
  assumes "distinct (map fst (projects st))"
  shows "projects (cleanup now rm_ok st) = filter (\<lambda>e. \<not> old now e) (projects st)"
proof -
  have "\<And>e. e \<in> set (projects st)
          \<Longrightarrow> fst e \<notin> fst ` set (filter (old now) (projects st)) \<longleftrightarrow> \<not> old now e"
    using eq_key_imp_eq_value [OF assms] by (fastforce simp: image_iff)
  then show ?thesis
    unfolding cleanup_def sweep_projects by (intro filter_cong) auto
qed

lemma sweep_disk_None:
  "disk st k = None \<Longrightarrow> disk (sweep now rm_ok es st) k = None"
proof (induction es arbitrary: st)
  case Nil
  then show ?case by simp
next
  case (Cons e rest)
  show ?case
  proof (cases "old now e")
    case True
    have "disk (sweep now rm_ok rest
             (st\<lparr>events := events st @ eviction rm_ok e,
                 projects := AList.delete (fst e) (projects st),
                 disk := (if rm_ok (path (snd e))
                          then rm_recursive (path (snd e)) (disk st)
                          else (\<lambda>k. if prefix (segs (path (snd e))) k
                                       \<and> rm_partial st (path (snd e)) k
                                    then None else disk st k))\<rparr>)) k = None"
      using Cons.prems by (intro Cons.IH) (simp add: rm_recursive_def)
    with True show ?thesis by (simp only: sweep_Cons if_True)
  next
    case False
    with Cons show ?thesis by (simp only: sweep_Cons if_False)
  qed
qed

lemma sweep_disk_removed:
  "e \<in> set es \<Longrightarrow> old now e \<Longrightarrow> rm_ok (path (snd e)) \<Longrightarrow> prefix (segs (path (snd e))) k
     \<Longrightarrow> disk (sweep now rm_ok es st) k = None"
proof (induction es arbitrary: st)
  case Nil
  then show ?case by simp
next
  case (Cons x rest)
  show ?case
  proof (cases "x = e")
    case True
    have "disk (sweep now rm_ok rest
             (st\<lparr>events := events st @ eviction rm_ok e,
                 projects := AList.delete (fst e) (projects st),
                 disk := (if rm_ok (path (snd e))
                          then rm_recursive (path (snd e)) (disk st)
                          else (\<lambda>k. if prefix (segs (path (snd e))) k
                                       \<and> rm_partial st (path (snd e)) k
                                    then None else disk st k))\<rparr>)) k = None"
      using Cons.prems by (intro sweep_disk_None) (simp add: rm_recursive_def)
    with True Cons.prems(2) show ?thesis by (simp only: sweep_Cons if_True)
  next
    case False
    with Cons.prems have "e \<in> set rest" by simp
    from Cons.IH [OF this Cons.prems(2,3,4)] show ?thesis
      by (cases "old now x") (simp_all only: sweep_Cons if_True if_False)
  qed
qed

lemma sweep_disk_kept:
  "\<forall>e\<in>set es. old now e \<longrightarrow> \<not> prefix (segs (path (snd e))) k
     \<Longrightarrow> disk (sweep now rm_ok es st) k = disk st k"
proof (induction es arbitrary: st)
  case Nil
  then show ?case by simp
next
  case (Cons e rest)
  show ?case
  proof (cases "old now e")
    case True
    have "disk (sweep now rm_ok rest
             (st\<lparr>events := events st @ eviction rm_ok e,
                 projects := AList.delete (fst e) (projects st),
                 disk := (if rm_ok (path (snd e))
                          then rm_recursive (path (snd e)) (disk st)
                          else (\<lambda>k. if prefix (segs (path (snd e))) k
                                       \<and> rm_partial st (path (snd e)) k
                                    then None else disk st k))\<rparr>)) k
          = disk (st\<lparr>events := events st @ eviction rm_ok e,
                 projects := AList.delete (fst e) (projects st),
                 disk := (if rm_ok (path (snd e))
                          then rm_recursive (path (snd e)) (disk st)
                          else (\<lambda>k. if prefix (segs (path (snd e))) k
                                       \<and> rm_partial st (path (snd e)) k
                                    then None else disk st k))\<rparr>) k"
      using Cons.prems by (intro Cons.IH) simp
    with True Cons.prems show ?thesis
      by (simp only: sweep_Cons if_True) (simp add: rm_recursive_def)
  next
    case False
    with Cons show ?thesis by (simp only: sweep_Cons if_False) simp
  qed
qed

lemma map_of_filter_distinct:
  "distinct (map fst xs) \<Longrightarrow> e \<in> set xs
     \<Longrightarrow> map_of (filter P xs) (fst e) = (if P e then Some (snd e) else None)"
proof (induction xs)
  case Nil
  then show ?case by simp
next
  case (Cons x xs)
  show ?case
  proof (cases "x = e")
    case True
    with Cons.prems(1) have "fst e \<notin> fst ` set (filter P xs)" by (auto simp: image_iff)
    then have "map_of (filter P xs) (fst e) = None" by (simp add: map_of_eq_None_iff)
    with True show ?thesis by simp
  next
    case False
    with Cons.prems have "e \<in> set xs" and "fst x \<noteq> fst e" by (auto simp: image_iff)
    with Cons show ?thesis by simp
  qed
qed

lemma count_list_evictions:
  "count_list (concat (map (eviction rm_ok) es)) (ViteClosed h)
     = length (filter (\<lambda>e. vite (snd e) = h) es)"
  by (induction es) (simp_all add: eviction_def)

lemma distinct_filter_one:
  "distinct (map f xs) \<Longrightarrow> x \<in> set xs \<Longrightarrow> length (filter (\<lambda>y. f y = f x) xs) = 1"
proof (induction xs)
  case Nil
  then show ?case by simp
next
  case (Cons a xs)
  show ?case
  proof (cases "a = x")
    case True
    with Cons.prems(1) have "filter (\<lambda>y. f y = f x) xs = []"
      by (auto simp: filter_empty_conv image_iff)
    with True show ?thesis by simp
  next
    case False
    with Cons.prems have "x \<in> set xs" "f a \<noteq> f x" by (auto simp: image_iff)
    with Cons show ?thesis by simp
  qed
qed

lemma distinct_filter_none:
  "distinct (map f xs) \<Longrightarrow> x \<in> set xs \<Longrightarrow> \<not> P x \<Longrightarrow> filter (\<lambda>y. f y = f x) (filter P xs) = []"
  by (auto simp: filter_empty_conv distinct_map inj_on_def)

lemma filter_filter_one:
  "distinct (map f xs) \<Longrightarrow> x \<in> set xs \<Longrightarrow> P x
     \<Longrightarrow> length (filter (\<lambda>y. f y = f x) (filter P xs)) = 1"
  by (rule distinct_filter_one) (auto simp: distinct_map_filter)

lemma sweep_vites: "vites (sweep now rm_ok es st) = vites st"
proof (induction es arbitrary: st)
  case Nil
  then show ?case by simp
next
  case (Cons e rest)
  show ?case
    by (cases "old now e") (simp_all only: sweep_Cons if_True if_False Cons.IH, simp)
qed

section \<open>load-project\<close>

text \<open>
  The handler succeeds on one path only. One turn of the loop either raises, having
  changed no file but the file of its entry, or writes the file of its entry and goes on.
  The lemmas after that say where the files on the disk after the loop come from.
\<close>

lemma load_project_Str:
  "load_project now ok (Str pid) (Some fl) st =
     (if pid = [] then (InvalidRequest ''Invalid request: projectId and files required'', st)
      else case mkdir_recursive (join_strings [module_dirname st, ''projects'', pid]) (disk st) of
        Inl e \<Rightarrow> (Failure ''Failed to load project'' e, st)
      | Inr d1 \<Rightarrow>
          (case write_files (join_strings [module_dirname st, ''projects'', pid])
                  fl (st\<lparr>disk := d1\<rparr>) of
             (Some e, st2) \<Rightarrow> (Failure ''Failed to load project'' e, st2)
           | (None, st2) \<Rightarrow>
               if \<not> ok then (Failure ''Failed to load project'' EngineFailure, st2)
               else
                 (Loaded pid (''/preview/'' @ pid),
                  st2\<lparr>vites := Suc (vites st2),
                      moduleGraph := (moduleGraph st2)(vites st2 := {}),
                      events := events st2
                        @ [ViteCreated (vites st2)
                             (join_strings [module_dirname st, ''projects'', pid])],
                      projects :=
                        AList.update pid
                          \<lparr>vite = vites st2,
                           path = join_strings [module_dirname st, ''projects'', pid],
                           files = fl, createdAt = now\<rparr>
                          (projects st2)\<rparr>)))"
  by (simp add: load_project_def)

lemma load_project_not_Str:
  "\<forall>pid. projectId \<noteq> Str pid \<Longrightarrow> status (fst (load_project now ok projectId fileArray st)) \<noteq> 200"
  by (cases projectId; cases fileArray) (simp_all add: load_project_def)

lemma load_project_None: "status (fst (load_project now ok projectId None st)) \<noteq> 200"
  by (simp add: load_project_def)

lemma load_project_loaded:
  assumes "load_project now ok projectId fileArray st = (r, st')" and "status r = 200"
  obtains pid fl d1 st2 where "projectId = Str pid" "pid \<noteq> []" "fileArray = Some fl" "ok"
    "mkdir_recursive (join_strings [module_dirname st, ''projects'', pid]) (disk st) = Inr d1"
    "write_files (join_strings [module_dirname st, ''projects'', pid]) fl (st\<lparr>disk := d1\<rparr>)
       = (None, st2)"
    "r = Loaded pid (''/preview/'' @ pid)"
    "st' = st2\<lparr>vites := Suc (vites st2),
                moduleGraph := (moduleGraph st2)(vites st2 := {}),
                events := events st2
                  @ [ViteCreated (vites st2)
                       (join_strings [module_dirname st, ''projects'', pid])],
                projects :=
                  AList.update pid
                    \<lparr>vite = vites st2,
                     path = join_strings [module_dirname st, ''projects'', pid],
                     files = fl, createdAt = now\<rparr>
                    (projects st2)\<rparr>"
proof -
  obtain pid where pid: "projectId = Str pid"
    using assms load_project_not_Str [of projectId now ok fileArray st] by fastforce
  obtain fl where fl: "fileArray = Some fl"
    using assms load_project_None [of now ok projectId st] by (cases fileArray) auto
  note eq = assms(1) [unfolded pid fl load_project_Str]
  show ?thesis
  proof (cases "pid = []")
    case True
    with eq assms(2) show ?thesis by auto
  next
    case ne: False
    show ?thesis
    proof (cases "mkdir_recursive (join_strings [module_dirname st, ''projects'', pid]) (disk st)")
      case (Inl e)
      with eq ne assms(2) show ?thesis by auto
    next
      case (Inr d1)
      obtain eo st2 where w:
        "write_files (join_strings [module_dirname st, ''projects'', pid]) fl (st\<lparr>disk := d1\<rparr>)
           = (eo, st2)"
        by (cases "write_files (join_strings [module_dirname st, ''projects'', pid]) fl
              (st\<lparr>disk := d1\<rparr>)")
      show ?thesis
      proof (cases eo)
        case (Some e)
        with eq ne Inr w assms(2) show ?thesis by auto
      next
        case None
        show ?thesis
        proof (cases ok)
          case False
          with eq ne Inr w None assms(2) show ?thesis by auto
        next
          case True
          with eq ne Inr w None have "r = Loaded pid (''/preview/'' @ pid)"
            and "st' = st2\<lparr>vites := Suc (vites st2),
                moduleGraph := (moduleGraph st2)(vites st2 := {}),
                events := events st2
                  @ [ViteCreated (vites st2)
                       (join_strings [module_dirname st, ''projects'', pid])],
                projects :=
                  AList.update pid
                    \<lparr>vite = vites st2,
                     path = join_strings [module_dirname st, ''projects'', pid],
                     files = fl, createdAt = now\<rparr>
                    (projects st2)\<rparr>"
            by simp_all
          with that pid ne fl True Inr w None show ?thesis by blast
        qed
      qed
    qed
  qed
qed

lemma load_project_registers:
  assumes "load_project now ok projectId (Some fl) st = (r, st1)" and "status r = 200"
  shows "\<exists>pid s. projectId = Str pid \<and> map_of (projects st1) pid = Some s \<and> createdAt s = now"
  using assms by (elim load_project_loaded) (auto simp: update_conv')

lemma write_files_step:
  obtains (threw) e st1 where "write_files ws (file # rest) st = (Some e, st1)"
      "projects st1 = projects st" "vites st1 = vites st"
      "\<And>k c. disk st1 k = Some (File c) \<Longrightarrow>
          disk st k = Some (File c)
        \<or> (\<exists>p. get_prop file ''path'' = Inr (Str p) \<and> k = segs (join_strings [ws, p]))"
  | (wrote) p v c d1 where "get_prop file ''path'' = Inr (Str p)"
      "get_prop file ''content'' = Inr v" "data_text v = Some c"
      "mkdir_recursive (dirname (join_strings [ws, p])) (disk st) = Inr d1"
      "write_files ws (file # rest) st =
         write_files ws rest
           (st\<lparr>disk := d1(segs (join_strings [ws, p]) \<mapsto> File c),
               events := events st @ [Wrote (join_strings [ws, p]) v]\<rparr>)"
proof (cases "get_prop file ''path''")
  case (Inl e)
  then show ?thesis using threw [of e st] by simp
next
  case (Inr u)
  show ?thesis
  proof (cases "\<exists>p. u = Str p")
    case False
    with Inr show ?thesis using threw [of TypeError st] by (cases u) simp_all
  next
    case True
    then obtain p where p: "u = Str p" by blast
    show ?thesis
    proof (cases "mkdir_recursive (dirname (join_strings [ws, p])) (disk st)")
      case (Inl e)
      with Inr p show ?thesis using threw [of e st] by simp
    next
      case d1: (Inr d1)
      show ?thesis
      proof (cases "get_prop file ''content''")
        case (Inl e)
        with Inr p d1 show ?thesis
          using threw [of e "st\<lparr>disk := d1\<rparr>"] mkdir_recursive_files [OF d1] by simp
      next
        case content: (Inr v)
        show ?thesis
        proof (cases "writeFile (join_strings [ws, p]) v d1")
          case (Inl e)
          have "disk st k = Some (File c) \<or> k = segs (join_strings [ws, p])"
            if "failed_write (join_strings [ws, p]) v d1 k = Some (File c)" for k c
            using that failed_write_other [of k "join_strings [ws, p]" v d1]
              mkdir_recursive_files [OF d1, of k c]
            by (cases "k = segs (join_strings [ws, p])") simp_all
          with Inl Inr p d1 content show ?thesis
            using threw [of e "st\<lparr>disk := failed_write (join_strings [ws, p]) v d1\<rparr>"]
            by simp
        next
          case d2: (Inr d2)
          then obtain c where c: "data_text v = Some c"
            "d2 = d1(segs (join_strings [ws, p]) \<mapsto> File c)"
            by (rule writeFile_Inr)
          with Inr p d1 content d2 show ?thesis
            using wrote [of p v c d1] by simp
        qed
      qed
    qed
  qed
qed

declare write_files.simps(2) [simp del]

lemma target_entry: "get_prop file ''path'' = Inr (Str p) \<Longrightarrow> target ws file = segs (join_strings [ws, p])"
  by (simp add: target_def entry_path_def)

lemma well_formed_text:
  "well_formed e \<Longrightarrow> get_prop e ''content'' = Inr v \<Longrightarrow> data_text v = Some c
     \<Longrightarrow> entry_text e = c"
  by (auto simp: well_formed_def entry_text_def split: sum.splits jsval.splits)

lemma write_files_origin:
  "write_files ws fl st = (eo, st') \<Longrightarrow> disk st' k = Some (File c)
     \<Longrightarrow> disk st k = Some (File c)
         \<or> (\<exists>e\<in>set fl. \<exists>p. get_prop e ''path'' = Inr (Str p)
                \<and> k = segs (join_strings [ws, p]))"
proof (induction fl arbitrary: st)
  case Nil
  then show ?case by simp
next
  case (Cons entry rest)
  show ?case
  proof (cases rule: write_files_step [of ws entry rest st])
    case (threw e st1)
    with Cons.prems show ?thesis by auto
  next
    case (wrote p v c' d1)
    let ?st2 = "st\<lparr>disk := d1(segs (join_strings [ws, p]) \<mapsto> File c'),
               events := events st @ [Wrote (join_strings [ws, p]) v]\<rparr>"
    from Cons.prems(1) wrote(5) have "write_files ws rest ?st2 = (eo, st')" by simp
    from Cons.IH [OF this Cons.prems(2)]
    show ?thesis
    proof
      assume "disk ?st2 k = Some (File c)"
      then show ?thesis
        using wrote(1) mkdir_recursive_files [OF wrote(4), of k c]
        by (auto split: if_splits)
    next
      assume "\<exists>e\<in>set rest. \<exists>p. get_prop e ''path'' = Inr (Str p)
                \<and> k = segs (join_strings [ws, p])"
      then show ?thesis by auto
    qed
  qed
qed

lemma write_files_files:
  "write_files ws fl st = (None, st')
     \<Longrightarrow> {k. is_file (disk st') k} = {k. is_file (disk st) k} \<union> set (map (target ws) fl)"
proof (induction fl arbitrary: st)
  case Nil
  then show ?case by simp
next
  case (Cons entry rest)
  show ?case
  proof (cases rule: write_files_step [of ws entry rest st])
    case (threw e st1)
    with Cons.prems show ?thesis by simp
  next
    case (wrote p v c d1)
    let ?st2 = "st\<lparr>disk := d1(segs (join_strings [ws, p]) \<mapsto> File c),
               events := events st @ [Wrote (join_strings [ws, p]) v]\<rparr>"
    from Cons.prems wrote(5) have "write_files ws rest ?st2 = (None, st')" by simp
    from Cons.IH [OF this]
    have "{k. is_file (disk st') k} = {k. is_file (disk ?st2) k} \<union> set (map (target ws) rest)" .
    moreover have "{k. is_file (disk ?st2) k} = {k. is_file (disk st) k} \<union> {target ws entry}"
      using mkdir_recursive_is_file [OF wrote(4)] target_entry [OF wrote(1), of ws]
      by (auto simp: is_file_upd)
    ultimately show ?thesis by auto
  qed
qed

lemma write_files_keeps:
  "write_files ws fl st = (None, st') \<Longrightarrow> disk st k = Some (File c)
     \<Longrightarrow> k \<notin> set (map (target ws) fl) \<Longrightarrow> disk st' k = Some (File c)"
proof (induction fl arbitrary: st)
  case Nil
  then show ?case by simp
next
  case (Cons entry rest)
  show ?case
  proof (cases rule: write_files_step [of ws entry rest st])
    case (threw e st1)
    with Cons.prems show ?thesis by simp
  next
    case (wrote p v c' d1)
    let ?st2 = "st\<lparr>disk := d1(segs (join_strings [ws, p]) \<mapsto> File c'),
               events := events st @ [Wrote (join_strings [ws, p]) v]\<rparr>"
    from Cons.prems(1) wrote(5) have 1: "write_files ws rest ?st2 = (None, st')" by simp
    have 2: "disk ?st2 k = Some (File c)"
      using Cons.prems(2,3) mkdir_recursive_files [OF wrote(4), of k c]
        target_entry [OF wrote(1), of ws]
      by simp
    from Cons.prems(3) have 3: "k \<notin> set (map (target ws) rest)" by simp
    from Cons.IH [OF 1 2 3] show ?thesis .
  qed
qed

lemma write_files_texts:
  "write_files ws fl st = (None, st') \<Longrightarrow> distinct (map (target ws) fl) \<Longrightarrow> e \<in> set fl
     \<Longrightarrow> well_formed e \<Longrightarrow> disk st' (target ws e) = Some (File (entry_text e))"
proof (induction fl arbitrary: st)
  case Nil
  then show ?case by simp
next
  case (Cons entry rest)
  show ?case
  proof (cases rule: write_files_step [of ws entry rest st])
    case (threw e st1)
    with Cons.prems show ?thesis by simp
  next
    case (wrote p v c d1)
    let ?st2 = "st\<lparr>disk := d1(segs (join_strings [ws, p]) \<mapsto> File c),
               events := events st @ [Wrote (join_strings [ws, p]) v]\<rparr>"
    from Cons.prems(1) wrote(5) have 1: "write_files ws rest ?st2 = (None, st')" by simp
    from Cons.prems(2) have dist: "distinct (map (target ws) rest)"
      and fresh: "target ws entry \<notin> set (map (target ws) rest)" by simp_all
    show ?thesis
    proof (cases "e \<in> set rest")
      case True
      from Cons.IH [OF 1 dist True Cons.prems(4)] show ?thesis .
    next
      case False
      with Cons.prems(3) have e: "e = entry" by simp
      have "disk ?st2 (target ws entry) = Some (File c)"
        using target_entry [OF wrote(1), of ws] by simp
      from write_files_keeps [OF 1 this fresh] show ?thesis
        using e well_formed_text [OF _ wrote(2,3)] Cons.prems(4) by simp
    qed
  qed
qed

lemma write_files_projects:
  "write_files ws fl st = (eo, st') \<Longrightarrow> projects st' = projects st \<and> vites st' = vites st"
proof (induction fl arbitrary: st)
  case Nil
  then show ?case by simp
next
  case (Cons entry rest)
  show ?case
  proof (cases rule: write_files_step [of ws entry rest st])
    case (threw e st1)
    with Cons.prems show ?thesis by simp
  next
    case (wrote p v c d1)
    with Cons.prems Cons.IH [of "st\<lparr>disk := d1(segs (join_strings [ws, p]) \<mapsto> File c),
               events := events st @ [Wrote (join_strings [ws, p]) v]\<rparr>"]
    show ?thesis by simp
  qed
qed

lemma load_project_disk:
  assumes "load_project now ok projectId fileArray st = (r, st')"
  shows "disk st' = disk st
       \<or> (\<exists>pid fl d1 eo st2. projectId = Str pid \<and> fileArray = Some fl
            \<and> mkdir_recursive (join_strings [module_dirname st, ''projects'', pid]) (disk st)
                = Inr d1
            \<and> write_files (join_strings [module_dirname st, ''projects'', pid]) fl
                 (st\<lparr>disk := d1\<rparr>) = (eo, st2)
            \<and> disk st' = disk st2)"
proof (cases "\<exists>pid fl. projectId = Str pid \<and> fileArray = Some fl")
  case False
  then have "load_project now ok projectId fileArray st = (fst (load_project now ok projectId fileArray st), st)"
    by (cases projectId; cases fileArray) (simp_all add: load_project_def)
  with assms show ?thesis by simp
next
  case True
  then obtain pid fl where pf: "projectId = Str pid" "fileArray = Some fl" by blast
  note eq = assms [unfolded pf load_project_Str]
  show ?thesis
  proof (cases "pid = []")
    case True
    with eq show ?thesis by auto
  next
    case ne: False
    show ?thesis
    proof (cases "mkdir_recursive (join_strings [module_dirname st, ''projects'', pid]) (disk st)")
      case (Inl e)
      with eq ne show ?thesis by auto
    next
      case (Inr d1)
      obtain eo st2 where w:
        "write_files (join_strings [module_dirname st, ''projects'', pid]) fl (st\<lparr>disk := d1\<rparr>)
           = (eo, st2)"
        by (cases "write_files (join_strings [module_dirname st, ''projects'', pid]) fl
              (st\<lparr>disk := d1\<rparr>)")
      have "disk st' = disk st2"
        using eq ne Inr w by (cases eo; cases ok) auto
      with pf Inr w show ?thesis by blast
    qed
  qed
qed

lemma load_project_projects:
  assumes "load_project now ok projectId fileArray st = (r, st')"
  shows "projects st' = projects st \<and> vites st' = vites st
       \<or> (\<exists>pid s. status r = 200 \<and> projectId = Str pid
             \<and> projects st' = AList.update pid s (projects st))"
proof (cases "\<exists>pid fl. projectId = Str pid \<and> fileArray = Some fl")
  case False
  then have "load_project now ok projectId fileArray st = (fst (load_project now ok projectId fileArray st), st)"
    by (cases projectId; cases fileArray) (simp_all add: load_project_def)
  with assms show ?thesis by simp
next
  case True
  then obtain pid fl where pf: "projectId = Str pid" "fileArray = Some fl" by blast
  note eq = assms [unfolded pf load_project_Str]
  show ?thesis
  proof (cases "pid = []")
    case True
    with eq show ?thesis by auto
  next
    case ne: False
    show ?thesis
    proof (cases "mkdir_recursive (join_strings [module_dirname st, ''projects'', pid]) (disk st)")
      case (Inl e)
      with eq ne show ?thesis by auto
    next
      case (Inr d1)
      obtain eo st2 where w:
        "write_files (join_strings [module_dirname st, ''projects'', pid]) fl (st\<lparr>disk := d1\<rparr>)
           = (eo, st2)"
        by (cases "write_files (join_strings [module_dirname st, ''projects'', pid]) fl
              (st\<lparr>disk := d1\<rparr>)")
      from write_files_projects [OF w]
      have p: "projects st2 = projects st" "vites st2 = vites st" by simp_all
      show ?thesis
        using eq ne Inr w p pf by (cases eo; cases ok) auto
    qed
  qed
qed

section \<open>The keys of the map stay distinct\<close>

text \<open>\<open>projects\<close> is a Map: no handler gives it two entries with one key.\<close>

lemma load_project_distinct:
  "distinct (map fst (projects st))
     \<Longrightarrow> distinct (map fst (projects (snd (load_project now ok projectId fileArray st))))"
  using load_project_projects [of now ok projectId fileArray st
      "fst (load_project now ok projectId fileArray st)"
      "snd (load_project now ok projectId fileArray st)"]
  by (auto simp: distinct_update)

lemma update_file_distinct:
  "distinct (map fst (projects st))
     \<Longrightarrow> distinct (map fst (projects (snd (update_file now projectId p content st))))"
  by (simp add: update_file_projects)

lemma cleanup_distinct:
  "distinct (map fst (projects st)) \<Longrightarrow> distinct (map fst (projects (cleanup now rm_ok st)))"
  by (simp add: cleanup_projects distinct_map_filter)

section \<open>The engines of the entries stay distinct\<close>

text \<open>
  \<open>createViteServer\<close> returns a new engine at every call, and only load-project puts an
  engine into the map.
\<close>

lemma update_fresh_handle:
  "distinct (map (\<lambda>e. g (snd e)) al) \<Longrightarrow> \<forall>e\<in>set al. g (snd e) \<noteq> g v
     \<Longrightarrow> distinct (map (\<lambda>e. g (snd e)) (AList.update k v al))
         \<and> set (AList.update k v al) \<subseteq> insert (k, v) (set al)"
  by (induction al) (auto simp: image_iff)

lemma handles_ok_start: "handles_ok (start d)"
  by (simp add: handles_ok_def start_def)

lemma handles_ok_load:
  assumes "handles_ok st"
  shows "handles_ok (snd (load_project now ok projectId fileArray st))"
proof (cases "status (fst (load_project now ok projectId fileArray st)) = 200")
  case True
  obtain r st' where eq: "load_project now ok projectId fileArray st = (r, st')"
    by (cases "load_project now ok projectId fileArray st")
  with True have ok: "status r = 200" by simp
  from eq ok obtain pid fl d1 st2 where
    w: "write_files (join_strings [module_dirname st, ''projects'', pid]) fl (st\<lparr>disk := d1\<rparr>)
       = (None, st2)"
    and st': "st' = st2\<lparr>vites := Suc (vites st2),
                moduleGraph := (moduleGraph st2)(vites st2 := {}),
                events := events st2
                  @ [ViteCreated (vites st2)
                       (join_strings [module_dirname st, ''projects'', pid])],
                projects :=
                  AList.update pid
                    \<lparr>vite = vites st2,
                     path = join_strings [module_dirname st, ''projects'', pid],
                     files = fl, createdAt = now\<rparr>
                    (projects st2)\<rparr>"
    by (rule load_project_loaded)
  from write_files_projects [OF w]
  have same: "projects st2 = projects st" "vites st2 = vites st" by simp_all
  let ?s = "\<lparr>vite = vites st, path = join_strings [module_dirname st, ''projects'', pid],
                     files = fl, createdAt = now\<rparr>"
  have "distinct (map (\<lambda>e. vite (snd e)) (AList.update pid ?s (projects st)))
         \<and> set (AList.update pid ?s (projects st)) \<subseteq> insert (pid, ?s) (set (projects st))"
    using assms by (intro update_fresh_handle) (auto simp: handles_ok_def)
  then show ?thesis
    using assms by (auto simp: eq st' same handles_ok_def less_Suc_eq)
next
  case False
  from load_project_projects [of now ok projectId fileArray st
      "fst (load_project now ok projectId fileArray st)"
      "snd (load_project now ok projectId fileArray st)"] False
  have "projects (snd (load_project now ok projectId fileArray st)) = projects st"
    and "vites (snd (load_project now ok projectId fileArray st)) = vites st"
    by auto
  with assms show ?thesis by (simp add: handles_ok_def)
qed

lemma update_file_vites: "vites (snd (update_file now projectId p content st)) = vites st"
  by (cases rule: update_file_cases [of projectId p content now st]) simp_all

lemma handles_ok_update:
  "handles_ok st \<Longrightarrow> handles_ok (snd (update_file now projectId p content st))"
  by (simp add: handles_ok_def update_file_projects update_file_vites)

lemma handles_ok_cleanup:
  assumes "distinct (map fst (projects st))" and "handles_ok st"
  shows "handles_ok (cleanup now rm_ok st)"
proof -
  have p: "projects (cleanup now rm_ok st) = filter (\<lambda>e. \<not> old now e) (projects st)"
    by (rule cleanup_projects [OF assms(1)])
  have v: "vites (cleanup now rm_ok st) = vites st"
    by (simp add: cleanup_def sweep_vites)
  show ?thesis
    using assms(2) by (auto simp: handles_ok_def p v distinct_map_filter)
qed

section \<open>The running example, evaluated\<close>

lemma demo_response:
  "fst (load_project 1000 True (Str ''p'') (Some demo_files) (start ''/app''))
     = Loaded ''p'' ''/preview/p''"
  by code_simp

lemma demo_load:
  "load_project 1000 True (Str ''p'') (Some demo_files) (start ''/app'')
     = (Loaded ''p'' ''/preview/p'', demo)"
  by (rule prod_eqI) (simp_all add: demo_response demo_def)

lemma demo_projects:
  "projects demo
     = [(''p'', \<lparr>vite = 0, path = ''/app/projects/p'', files = demo_files, createdAt = 1000\<rparr>)]"
  by code_simp

lemma demo_disk:
  "disk demo [''app'', ''projects'', ''p'', ''src'', ''a.js''] = Some (File ''1'')"
  "disk demo [''app'', ''projects'', ''p'', ''b.js''] = Some (File ''2'')"
  "disk demo [''app'', ''projects'', ''p''] = Some Dir"
  "disk demo [''app'', ''projects'', ''p'', ''src''] = Some Dir"
  by code_simp+

lemma demo_graph: "''/app/projects/p/b.js'' \<notin> moduleGraph demo 0"
  by code_simp


lemma join_demo: "join_strings [''/app/projects/p'', ''b.js''] = ''/app/projects/p/b.js''"
  by code_simp

lemma segs_demo: "segs ''/app/projects/p/b.js'' = [''app'', ''projects'', ''p'', ''b.js'']"
  by code_simp

lemma demo_writeFile:
  "writeFile ''/app/projects/p/b.js'' (Str c) (disk demo)
     = Inr ((disk demo)([''app'', ''projects'', ''p'', ''b.js''] \<mapsto> File c))"
  by (simp add: writeFile_def open_w_def segs_demo demo_disk)


lemma demo_targets:
  "map (target (join_strings [module_dirname (start ''/app''), ''projects'', ''p''])) demo_files
     = [[''app'', ''projects'', ''p'', ''src'', ''a.js''], [''app'', ''projects'', ''p'', ''b.js'']]"
  "segs (join_strings [module_dirname (start ''/app''), ''projects'', ''p''])
     = [''app'', ''projects'', ''p'']"
  by code_simp+

lemma two_projects:
  "projects two =
     [(''p'', \<lparr>vite = 0, path = ''/app/projects/p'', files = demo_files, createdAt = 1000\<rparr>),
      (''q'', \<lparr>vite = 1, path = ''/app/projects/q'',
              files = [Obj [(''path'', Str ''index.html''), (''content'', Str ''hi'')]],
              createdAt = 1500000\<rparr>)]"
  by code_simp

lemma shared_projects:
  "projects shared =
     [(''p'', \<lparr>vite = 0, path = ''/app/projects/p'', files = demo_files, createdAt = 1000\<rparr>),
      (''./p'', \<lparr>vite = 1, path = ''/app/projects/p'',
              files = [Obj [(''path'', Str ''x.js''), (''content'', Str ''hi'')]],
              createdAt = 1500000\<rparr>)]"
  by code_simp

lemma demo_well_formed: "\<forall>e\<in>set demo_files. well_formed e"
  by code_simp

section \<open>The claims\<close>

text \<open>
  \<^bold>\<open>C1\<close> (amended). Every file that a load-project request creates or changes is the
  file \<open>join(workspace, entry.path)\<close> of one of its entries. Let \<open>__dirname\<close> be
  absolute. Read as a relative path (a leading slash counts for nothing) and normalised,
  the entry path is n segments \<open>..\<close> followed by names t. The file is at the workspace path
  without its last n components (without all of them when it has fewer), followed by t. It
  lies inside the workspace exactly when t begins with those last n components; so it
  does whenever n is 0.

  An entry path that leaves the workspace is written where it leads: project \<open>p\<close> with
  the entry path \<open>../../server.js\<close>, on a server installed in \<open>/app\<close>, is answered
  200 and \<open>/app/server.js\<close> holds the content of the entry.
\<close>

theorem load_project_writes:
  assumes "load_project now ok projectId fileArray st = (r, st')"
      and "disk st' k = Some (File c)" and "disk st k \<noteq> Some (File c)"
  shows "\<exists>pid fl e p. projectId = Str pid \<and> fileArray = Some fl \<and> e \<in> set fl
           \<and> get_prop e ''path'' = Inr (Str p)
           \<and> k = segs (join_strings [join_strings [module_dirname st, ''projects'', pid], p])
           \<and> (isAbsolute (module_dirname st) \<longrightarrow>
                k = take (length (segs (join_strings [module_dirname st, ''projects'', pid]))
                           - climb p)
                      (segs (join_strings [module_dirname st, ''projects'', pid]))
                    @ descent p
              \<and> (prefix (segs (join_strings [module_dirname st, ''projects'', pid])) k
                   \<longleftrightarrow> prefix
                         (drop (length (segs (join_strings [module_dirname st, ''projects'', pid]))
                                 - climb p)
                            (segs (join_strings [module_dirname st, ''projects'', pid])))
                         (descent p))
              \<and> (climb p = 0 \<longrightarrow>
                   prefix (segs (join_strings [module_dirname st, ''projects'', pid])) k))"
proof -
  from load_project_disk [OF assms(1)] assms(2,3)
  obtain pid fl d1 eo st2 where pf: "projectId = Str pid" "fileArray = Some fl"
    and m: "mkdir_recursive (join_strings [module_dirname st, ''projects'', pid]) (disk st) = Inr d1"
    and w: "write_files (join_strings [module_dirname st, ''projects'', pid]) fl
                 (st\<lparr>disk := d1\<rparr>) = (eo, st2)"
    and d: "disk st' = disk st2"
    by auto
  let ?ws = "join_strings [module_dirname st, ''projects'', pid]"
  from assms(2) d have "disk st2 k = Some (File c)" by simp
  from write_files_origin [OF w this] assms(3) mkdir_recursive_files [OF m, of k c]
  obtain e p where ep: "e \<in> set fl" "get_prop e ''path'' = Inr (Str p)"
    "k = segs (join_strings [?ws, p])"
    by auto
  have n: "normal_abs ?ws" if "isAbsolute (module_dirname st)"
    using that by (rule normal_abs_join_strings)
  have k1: "k = take (length (segs ?ws) - climb p) (segs ?ws) @ descent p"
    if "isAbsolute (module_dirname st)"
    unfolding ep(3) by (rule segs_join_climb [OF n [OF that]])
  have k2: "prefix (segs ?ws) k
            \<longleftrightarrow> prefix (drop (length (segs ?ws) - climb p) (segs ?ws)) (descent p)"
    if "isAbsolute (module_dirname st)"
    using prefix_take_append [of "segs ?ws" "climb p" "descent p"] k1 [OF that] by simp
  have k3: "prefix (segs ?ws) k" if "isAbsolute (module_dirname st)" "climb p = 0"
    using k2 [OF that(1)] that(2) by simp
  show ?thesis
  proof (intro exI conjI impI)
    show "projectId = Str pid" "fileArray = Some fl" "e \<in> set fl"
      "get_prop e ''path'' = Inr (Str p)" "k = segs (join_strings [?ws, p])"
      by (fact pf ep)+
  qed (rule k1 k2 k3; assumption)+
qed

theorem load_project_writes_witness:
  "disk demo [''app'', ''projects'', ''p'', ''src'', ''a.js''] = Some (File ''1'')
   \<and> disk (start ''/app'') [''app'', ''projects'', ''p'', ''src'', ''a.js''] \<noteq> Some (File ''1'')
   \<and> isAbsolute (module_dirname (start ''/app''))
   \<and> (\<exists>e p. e \<in> set demo_files \<and> get_prop e ''path'' = Inr (Str p)
         \<and> [''app'', ''projects'', ''p'', ''src'', ''a.js'']
             = segs (join_strings [join_strings [''/app'', ''projects'', ''p''], p])
         \<and> [''app'', ''projects'', ''p'', ''src'', ''a.js'']
             = take (length (segs (join_strings [''/app'', ''projects'', ''p''])) - climb p)
                 (segs (join_strings [''/app'', ''projects'', ''p''])) @ descent p)
   \<and> climb ''/src/a.js'' = 0 \<and> descent ''/src/a.js'' = [''src'', ''a.js'']
   \<and> prefix (segs (join_strings [''/app'', ''projects'', ''p'']))
        [''app'', ''projects'', ''p'', ''src'', ''a.js'']"
proof -
  have 1: "disk demo [''app'', ''projects'', ''p'', ''src'', ''a.js''] = Some (File ''1'')"
    by (rule demo_disk)
  have 2: "disk (start ''/app'') [''app'', ''projects'', ''p'', ''src'', ''a.js''] \<noteq> Some (File ''1'')"
    by (simp add: start_def)
  have 3: "isAbsolute (module_dirname (start ''/app''))"
    by (simp add: start_def isAbsolute_def)
  have 4: "climb ''/src/a.js'' = 0" "descent ''/src/a.js'' = [''src'', ''a.js'']"
    "prefix (segs (join_strings [''/app'', ''projects'', ''p'']))
        [''app'', ''projects'', ''p'', ''src'', ''a.js'']"
    by code_simp+
  have m: "module_dirname (start ''/app'') = ''/app''" by (simp add: start_def)
  from load_project_writes [OF demo_load 1 2]
  obtain pid fl e p where w: "Str ''p'' = Str pid" "Some demo_files = Some fl" "e \<in> set fl"
      "get_prop e ''path'' = Inr (Str p)"
      "[''app'', ''projects'', ''p'', ''src'', ''a.js'']
         = segs (join_strings [join_strings [module_dirname (start ''/app''), ''projects'', pid], p])"
      "isAbsolute (module_dirname (start ''/app'')) \<longrightarrow>
         [''app'', ''projects'', ''p'', ''src'', ''a.js'']
           = take (length (segs (join_strings [module_dirname (start ''/app''), ''projects'', pid]))
                    - climb p)
               (segs (join_strings [module_dirname (start ''/app''), ''projects'', pid]))
             @ descent p
         \<and> (prefix (segs (join_strings [module_dirname (start ''/app''), ''projects'', pid]))
               [''app'', ''projects'', ''p'', ''src'', ''a.js'']
              \<longleftrightarrow> prefix
                    (drop (length (segs (join_strings [module_dirname (start ''/app''), ''projects'', pid]))
                            - climb p)
                       (segs (join_strings [module_dirname (start ''/app''), ''projects'', pid])))
                    (descent p))
         \<and> (climb p = 0 \<longrightarrow>
              prefix (segs (join_strings [module_dirname (start ''/app''), ''projects'', pid]))
                [''app'', ''projects'', ''p'', ''src'', ''a.js''])"
    by (elim exE conjE) (rule that; assumption)
  from w(1) have pid: "pid = ''p''" by (simp only: jsval.inject)
  from w(2) have fl: "fl = demo_files" by (simp only: option.inject)
  note k = w(6) [rule_format, OF 3, THEN conjunct1]
  have "\<exists>e p. e \<in> set demo_files \<and> get_prop e ''path'' = Inr (Str p)
         \<and> [''app'', ''projects'', ''p'', ''src'', ''a.js'']
             = segs (join_strings [join_strings [''/app'', ''projects'', ''p''], p])
         \<and> [''app'', ''projects'', ''p'', ''src'', ''a.js'']
             = take (length (segs (join_strings [''/app'', ''projects'', ''p''])) - climb p)
                 (segs (join_strings [''/app'', ''projects'', ''p''])) @ descent p"
    using w(3,4,5) k unfolding pid fl m by (intro exI conjI)
  with 1 2 3 4 show ?thesis by (intro conjI)
qed

theorem load_project_writes_counterexample:
  "fst (load_project 1000 True (Str ''p'') (Some escaping) (start ''/app''))
     = Loaded ''p'' ''/preview/p''
   \<and> disk (start ''/app'') [''app'', ''server.js''] = None
   \<and> disk (snd (load_project 1000 True (Str ''p'') (Some escaping) (start ''/app'')))
        [''app'', ''server.js''] = Some (File ''gone'')
   \<and> segs (join_strings [''/app'', ''projects'', ''p'']) = [''app'', ''projects'', ''p'']
   \<and> \<not> prefix (segs (join_strings [''/app'', ''projects'', ''p''])) [''app'', ''server.js'']"
  by code_simp

text \<open>
  \<^bold>\<open>C2\<close> (amended). Let \<open>__dirname\<close> be absolute. Read as a relative path (a leading
  slash counts for nothing) and normalised, an id is n segments \<open>..\<close> followed by names t.
  The workspace of the id is the path of the \<open>projects\<close> directory without its last n
  components (without all of them when it has fewer), followed by t. For two ids P and Q
  with n = 0, the workspace of P is equal to the workspace of Q, or an ancestor of it,
  exactly when the names of P are a prefix of the names of Q. In particular two distinct
  ids that are plain segments (one name, not \<open>.\<close>, not \<open>..\<close>, no slash) have different
  workspaces, neither inside the other.

  Two ids that are not plain segments: \<open>p\<close> and \<open>p/src\<close> are both registered, the
  workspace of the second inside the workspace of the first; \<open>p\<close> and \<open>./p\<close> have the
  same workspace.
\<close>

theorem workspaces_disjoint:
  assumes "isAbsolute d"
  shows "segs (join_strings [d, ''projects'', P])
           = take (length (segs (join_strings [d, ''projects''])) - climb P)
               (segs (join_strings [d, ''projects''])) @ descent P
       \<and> (climb P = 0 \<and> climb Q = 0 \<longrightarrow>
            (prefix (segs (join_strings [d, ''projects'', P]))
                    (segs (join_strings [d, ''projects'', Q]))
               \<longleftrightarrow> prefix (descent P) (descent Q)))
       \<and> (plain P \<and> plain Q \<and> P \<noteq> Q \<longrightarrow>
             join_strings [d, ''projects'', P] \<noteq> join_strings [d, ''projects'', Q]
           \<and> \<not> prefix (segs (join_strings [d, ''projects'', P]))
                        (segs (join_strings [d, ''projects'', Q]))
           \<and> \<not> prefix (segs (join_strings [d, ''projects'', Q]))
                        (segs (join_strings [d, ''projects'', P])))"
proof -
  have iff: "prefix (segs (join_strings [d, ''projects'', A])) (segs (join_strings [d, ''projects'', B]))
            \<longleftrightarrow> prefix (descent A) (descent B)"
    if "climb A = 0" "climb B = 0" for A B
    by (simp add: segs_projects_root [OF assms] that)
  have dis: "\<not> prefix (segs (join_strings [d, ''projects'', A])) (segs (join_strings [d, ''projects'', B]))"
    if "plain A" "plain B" "A \<noteq> B" for A B
    using that by (simp add: iff plain_climb)
  have ne: "join_strings [d, ''projects'', P] \<noteq> join_strings [d, ''projects'', Q]"
    if "plain P" "plain Q" "P \<noteq> Q"
    using dis [OF that] by auto
  have "climb P = 0 \<and> climb Q = 0 \<longrightarrow>
            (prefix (segs (join_strings [d, ''projects'', P]))
                    (segs (join_strings [d, ''projects'', Q]))
               \<longleftrightarrow> prefix (descent P) (descent Q))"
    using iff by blast
  moreover have "plain P \<and> plain Q \<and> P \<noteq> Q \<longrightarrow>
             join_strings [d, ''projects'', P] \<noteq> join_strings [d, ''projects'', Q]
           \<and> \<not> prefix (segs (join_strings [d, ''projects'', P]))
                        (segs (join_strings [d, ''projects'', Q]))
           \<and> \<not> prefix (segs (join_strings [d, ''projects'', Q]))
                        (segs (join_strings [d, ''projects'', P]))"
    using ne dis by blast
  ultimately show ?thesis using segs_projects_root [OF assms, of P] by blast
qed

theorem workspaces_disjoint_witness:
  "isAbsolute ''/app'' \<and> plain ''p'' \<and> plain ''q'' \<and> climb ''p'' = 0 \<and> climb ''q'' = 0
   \<and> climb ''/../x'' = 1 \<and> descent ''/../x'' = [''x'']
   \<and> segs (join_strings [''/app'', ''projects'']) = [''app'', ''projects'']
   \<and> segs (join_strings [''/app'', ''projects'', ''/../x'']) = [''app'', ''x'']
   \<and> \<not> prefix (descent ''p'') (descent ''q'')
   \<and> join_strings [''/app'', ''projects'', ''p''] \<noteq> join_strings [''/app'', ''projects'', ''q'']
   \<and> \<not> prefix (segs (join_strings [''/app'', ''projects'', ''p'']))
               (segs (join_strings [''/app'', ''projects'', ''q'']))
   \<and> \<not> prefix (segs (join_strings [''/app'', ''projects'', ''q'']))
               (segs (join_strings [''/app'', ''projects'', ''p'']))"
proof -
  have h: "isAbsolute ''/app''" "plain ''p''" "plain ''q''" "climb ''p'' = 0" "climb ''q'' = 0"
    by code_simp+
  have x: "climb ''/../x'' = 1" "descent ''/../x'' = [''x'']"
    "segs (join_strings [''/app'', ''projects'']) = [''app'', ''projects'']"
    "\<not> prefix (descent ''p'') (descent ''q'')"
    by code_simp+
  have ne: "''p'' \<noteq> ''q''" by simp
  from workspaces_disjoint [OF h(1), of "''/../x''" "''q''"] x
  have 1: "segs (join_strings [''/app'', ''projects'', ''/../x'']) = [''app'', ''x'']"
    by simp
  from workspaces_disjoint [OF h(1), of "''p''" "''q''"] h ne
  have 2: "join_strings [''/app'', ''projects'', ''p''] \<noteq> join_strings [''/app'', ''projects'', ''q'']
   \<and> \<not> prefix (segs (join_strings [''/app'', ''projects'', ''p'']))
               (segs (join_strings [''/app'', ''projects'', ''q'']))
   \<and> \<not> prefix (segs (join_strings [''/app'', ''projects'', ''q'']))
               (segs (join_strings [''/app'', ''projects'', ''p'']))"
    by blast
  from h x 1 2 show ?thesis by blast
qed

theorem workspaces_nested_counterexample:
  "map (\<lambda>e. (fst e, path (snd e))) (projects nested)
     = [(''p'', ''/app/projects/p''), (''p/src'', ''/app/projects/p/src'')]
   \<and> join_strings [''/app'', ''projects'', ''p''] = ''/app/projects/p''
   \<and> join_strings [''/app'', ''projects'', ''p/src''] = ''/app/projects/p/src''
   \<and> ''p'' \<noteq> ''p/src''
   \<and> prefix (segs ''/app/projects/p'') (segs ''/app/projects/p/src'')
   \<and> ''p'' \<noteq> ''./p''
   \<and> join_strings [''/app'', ''projects'', ''./p''] = join_strings [''/app'', ''projects'', ''p'']"
  by code_simp

text \<open>
  \<^bold>\<open>C3\<close>, at the input where the code departs from it: project \<open>p\<close> is loaded while
  it is registered. The second load answers 200 and puts a session with engine 1 in the
  place of the session with engine 0, and no event closes engine 0. The sweep that later
  evicts \<open>p\<close> closes engine 1 once and engine 0 not at all; neither does the shutdown
  handler, which visits the entries of the map only.
\<close>

theorem reload_leaves_engine_open:
  "map (\<lambda>e. (fst e, vite (snd e))) (projects demo) = [(''p'', 0)]
   \<and> fst (load_project 2000 True (Str ''p'') (Some []) demo) = Loaded ''p'' ''/preview/p''
   \<and> map (\<lambda>e. (fst e, vite (snd e))) (projects reloaded) = [(''p'', 1)]
   \<and> count_list (events reloaded) (ViteClosed 0) = 0
   \<and> projects (cleanup 5000000 (\<lambda>p. True) reloaded) = []
   \<and> count_list (events (cleanup 5000000 (\<lambda>p. True) reloaded)) (ViteClosed 1) = 1
   \<and> count_list (events (cleanup 5000000 (\<lambda>p. True) reloaded)) (ViteClosed 0) = 0
   \<and> count_list (events (sigterm reloaded)) (ViteClosed 0) = 0"
  by code_simp

text \<open>
  \<^bold>\<open>C4\<close> (amended). An update-file request whose projectId is not registered never
  changes anything: the server state after the request, with its registry, its disk and
  its events, is the state before. The answer is 404 when the request passes the check of
  line 121; that check comes first, so a request that fails it (a falsy projectId, a falsy
  path, or no content) is answered 400, registered or not.
\<close>

theorem update_file_unregistered:
  assumes "projects_get st projectId = None"
  shows "snd (update_file now projectId p content st) = st
    \<and> status (fst (update_file now projectId p content st))
        = (if \<not> truthy projectId \<or> \<not> truthy p \<or> content = Undefined then 400 else 404)"
  using assms by (simp add: update_file_def)

theorem update_file_unregistered_witness:
  "projects_get demo (Str ''ghost'') = None
   \<and> snd (update_file 2000 (Str ''ghost'') (Str ''b.js'') (Str ''x'') demo) = demo
   \<and> status (fst (update_file 2000 (Str ''ghost'') (Str ''b.js'') (Str ''x'') demo)) = 404"
  using update_file_unregistered [of demo "Str ''ghost''" 2000 "Str ''b.js''" "Str ''x''"]
  by (simp add: demo_projects)

theorem update_file_unregistered_counterexample:
  "projects_get demo (Str ''ghost'') = None
   \<and> status (fst (update_file 2000 (Str ''ghost'') (Str []) (Str ''x'') demo)) = 400
   \<and> status (fst (update_file 2000 (Str ''ghost'') (Str ''b.js'') Undefined demo)) \<noteq> 404"
  by (simp add: demo_projects update_file_def)



text \<open>
  \<^bold>\<open>C6\<close> (amended). An update-file request on a registered project, for a path whose
  joined form has no node in the module graph of the project's engine, sends no
  invalidation and no notification, whatever its outcome. It succeeds exactly when it
  passes the check of line 121 and the write succeeds; a write that fails (content \<open>null\<close>,
  a missing directory) is answered 500.
\<close>

theorem update_file_no_module:
  assumes "projects_get st projectId = Some project"
      and "join_strings [path project, ps] \<notin> moduleGraph st (vite project)"
  shows "filter is_signal (events (snd (update_file now projectId (Str ps) content st)))
           = filter is_signal (events st)
       \<and> (fst (update_file now projectId (Str ps) content st) = Updated
            \<longleftrightarrow> truthy projectId \<and> ps \<noteq> [] \<and> content \<noteq> Undefined
                \<and> \<not> isl (writeFile (join_strings [path project, ps]) content (disk st)))"
proof (cases rule: update_file_cases [of projectId "Str ps" content now st])
  case invalid
  then show ?thesis by auto
next
  case (failed project' ps' e)
  with assms show ?thesis by simp
next
  case (written project' ps' d1)
  with assms show ?thesis by simp
qed (use assms in auto)

theorem update_file_no_module_witness:
  "projects_get demo (Str ''p'') \<noteq> None
   \<and> join_strings [''/app/projects/p'', ''b.js''] \<notin> moduleGraph demo 0
   \<and> fst (update_file 2000 (Str ''p'') (Str ''b.js'') (Str ''x'') demo) = Updated
   \<and> filter is_signal (events (snd (update_file 2000 (Str ''p'') (Str ''b.js'') (Str ''x'') demo)))
       = filter is_signal (events demo)"
  using update_file_no_module [of demo "Str ''p''"
      "\<lparr>vite = 0, path = ''/app/projects/p'', files = demo_files, createdAt = 1000\<rparr>"
      "''b.js''" 2000 "Str ''x''"]
  by (simp add: demo_projects join_demo demo_graph demo_writeFile)

theorem update_file_no_module_counterexample:
  "projects_get demo (Str ''p'') \<noteq> None
   \<and> join_strings [''/app/projects/p'', ''b.js''] \<notin> moduleGraph demo 0
   \<and> update_file 2000 (Str ''p'') (Str ''b.js'') Null demo
       = (Failure ''Failed to update file'' TypeError, demo)"
  by (simp add: demo_projects join_demo demo_graph update_file_def writeFile_def failed_write_def)

text \<open>
  \<^bold>\<open>C7\<close>. A load that succeeds registers a session whose \<open>createdAt\<close> is the time of
  the load. After any sequence of update-file requests the registry holds the same session
  for that id, so the same \<open>createdAt\<close>, and a sweep of the cleanup timer evicts what it
  would have evicted without the updates.
\<close>

theorem createdAt_not_refreshed:
  assumes "load_project now ok projectId (Some fl) st = (r, st1)" and "status r = 200"
  shows "\<exists>pid s. projectId = Str pid \<and> map_of (projects st1) pid = Some s \<and> createdAt s = now
           \<and> map_of (projects (updates reqs st1)) pid = Some s
           \<and> projects (cleanup t rm_ok (updates reqs st1)) = projects (cleanup t rm_ok st1)"
  using load_project_registers [OF assms] sweep_projects_cong [OF updates_projects]
  by (auto simp: updates_projects cleanup_def)

theorem createdAt_not_refreshed_witness:
  "status (fst (load_project 1000 True (Str ''p'') (Some demo_files) (start ''/app''))) = 200
   \<and> map_option createdAt (map_of
        (projects (updates [(2000, Str ''p'', Str ''b.js'', Str ''x''),
                            (5000000, Str ''p'', Str ''b.js'', Str ''y'')] demo)) ''p'') = Some 1000"
proof -
  have "status (Loaded ''p'' ''/preview/p'') = 200" by simp
  from createdAt_not_refreshed [OF demo_load this,
      of "[(2000, Str ''p'', Str ''b.js'', Str ''x''), (5000000, Str ''p'', Str ''b.js'', Str ''y'')]"
         0 "\<lambda>p. True"]
  show ?thesis by (auto simp: demo_response)
qed

text \<open>
  \<^bold>\<open>C8\<close> (amended). Take a load-project request that succeeds, with a list of N
  entries whose path and content are strings. Its id is a string. The files on the disk
  after it are the files that were there before and the N files
  \<open>join(workspace, entry.path)\<close>. When these N files are pairwise distinct, each holds the
  content of its entry; when moreover each of them lies inside the workspace and the
  workspace held no file before the load, the workspace holds exactly N files after it.

  Without these conditions the count and the contents differ. One entry \<open>c.js\<close> loaded
  into project \<open>p\<close>, which holds two files, leaves three files in the workspace. The
  entries \<open>a.js\<close> and \<open>./a.js\<close> are one file, which holds the content of the second.
\<close>

theorem load_project_round_trip:
  assumes "load_project now ok projectId (Some fl) st = (r, st')" and "status r = 200"
      and "\<forall>e\<in>set fl. well_formed e"
  shows "\<exists>pid. projectId = Str pid
     \<and> {k. is_file (disk st') k}
         = {k. is_file (disk st) k}
           \<union> set (map (target (join_strings [module_dirname st, ''projects'', pid])) fl)
     \<and> (distinct (map (target (join_strings [module_dirname st, ''projects'', pid])) fl) \<longrightarrow>
          (\<forall>e\<in>set fl.
             disk st' (target (join_strings [module_dirname st, ''projects'', pid]) e)
               = Some (File (entry_text e)))
        \<and> ((\<forall>k. prefix (segs (join_strings [module_dirname st, ''projects'', pid])) k
                   \<longrightarrow> \<not> is_file (disk st) k)
           \<and> (\<forall>e\<in>set fl.
                 prefix (segs (join_strings [module_dirname st, ''projects'', pid]))
                   (target (join_strings [module_dirname st, ''projects'', pid]) e))
           \<longrightarrow> card {k. is_file (disk st') k
                        \<and> prefix (segs (join_strings [module_dirname st, ''projects'', pid])) k}
                 = length fl))"
proof -
  from assms(1,2) obtain pid fl' d1 st2 where pf: "projectId = Str pid" "Some fl = Some fl'"
    and m: "mkdir_recursive (join_strings [module_dirname st, ''projects'', pid]) (disk st) = Inr d1"
    and w: "write_files (join_strings [module_dirname st, ''projects'', pid]) fl'
                 (st\<lparr>disk := d1\<rparr>) = (None, st2)"
    and st': "st' = st2\<lparr>vites := Suc (vites st2),
                moduleGraph := (moduleGraph st2)(vites st2 := {}),
                events := events st2
                  @ [ViteCreated (vites st2)
                       (join_strings [module_dirname st, ''projects'', pid])],
                projects :=
                  AList.update pid
                    \<lparr>vite = vites st2,
                     path = join_strings [module_dirname st, ''projects'', pid],
                     files = fl', createdAt = now\<rparr>
                    (projects st2)\<rparr>"
    by (rule load_project_loaded)
  from pf(2) have fl: "fl' = fl" by simp
  note w = w [unfolded fl]
  let ?ws = "join_strings [module_dirname st, ''projects'', pid]"
  let ?T = "set (map (target ?ws) fl)"
  have d: "disk st' = disk st2" by (simp add: st')
  have fs: "{k. is_file (disk st') k} = {k. is_file (disk st) k} \<union> ?T"
    using write_files_files [OF w] mkdir_recursive_is_file [OF m] by (simp add: d)
  have texts: "\<forall>e\<in>set fl. disk st' (target ?ws e) = Some (File (entry_text e))"
    if "distinct (map (target ?ws) fl)"
    using write_files_texts [OF w that] assms(3) by (simp add: d)
  have count: "card {k. is_file (disk st') k \<and> prefix (segs ?ws) k} = length fl"
    if dist: "distinct (map (target ?ws) fl)"
      and empty: "\<forall>k. prefix (segs ?ws) k \<longrightarrow> \<not> is_file (disk st) k"
      and inside: "\<forall>e\<in>set fl. prefix (segs ?ws) (target ?ws e)"
  proof -
    have "{k. is_file (disk st') k \<and> prefix (segs ?ws) k} = ?T"
      using fs empty inside by auto
    then show ?thesis using distinct_card [OF dist] by simp
  qed
  from pf(1) fs texts count show ?thesis by blast
qed

theorem load_project_round_trip_witness:
  "status (fst (load_project 1000 True (Str ''p'') (Some demo_files) (start ''/app''))) = 200
   \<and> list_all well_formed demo_files
   \<and> length demo_files = 2
   \<and> {k. is_file (disk demo) k}
       = {[''app'', ''projects'', ''p'', ''src'', ''a.js''], [''app'', ''projects'', ''p'', ''b.js'']}
   \<and> card {k. is_file (disk demo) k \<and> prefix [''app'', ''projects'', ''p''] k} = 2
   \<and> disk demo [''app'', ''projects'', ''p'', ''src'', ''a.js''] = Some (File ''1'')
   \<and> disk demo [''app'', ''projects'', ''p'', ''b.js''] = Some (File ''2'')"
proof -
  let ?ws = "join_strings [module_dirname (start ''/app''), ''projects'', ''p'']"
  have ok: "status (Loaded ''p'' ''/preview/p'') = 200" by simp
  have empty: "\<forall>k. prefix (segs ?ws) k \<longrightarrow> \<not> is_file (disk (start ''/app'')) k"
    and empty': "{k. is_file (disk (start ''/app'')) k} = {}"
    by (simp_all add: start_def is_file_iff)
  have dist: "distinct (map (target ?ws) demo_files)"
    by (simp add: demo_targets)
  have "\<forall>t\<in>set (map (target ?ws) demo_files). prefix (segs ?ws) t"
    by (simp add: demo_targets)
  then have inside: "\<forall>e\<in>set demo_files. prefix (segs ?ws) (target ?ws e)"
    by simp
  from load_project_round_trip [OF demo_load ok demo_well_formed]
  have fs: "{k. is_file (disk demo) k}
          = {k. is_file (disk (start ''/app'')) k} \<union> set (map (target ?ws) demo_files)"
    and rest: "distinct (map (target ?ws) demo_files) \<longrightarrow>
          (\<forall>e\<in>set demo_files. disk demo (target ?ws e) = Some (File (entry_text e)))
        \<and> ((\<forall>k. prefix (segs ?ws) k \<longrightarrow> \<not> is_file (disk (start ''/app'')) k)
           \<and> (\<forall>e\<in>set demo_files. prefix (segs ?ws) (target ?ws e))
           \<longrightarrow> card {k. is_file (disk demo) k \<and> prefix (segs ?ws) k} = length demo_files)"
    by auto
  from rest dist empty inside
  have "card {k. is_file (disk demo) k \<and> prefix (segs ?ws) k} = length demo_files"
    by blast
  then have "card {k. is_file (disk demo) k \<and> prefix [''app'', ''projects'', ''p''] k} = 2"
    by (simp add: demo_targets demo_files_def)
  moreover from fs have "{k. is_file (disk demo) k}
       = {[''app'', ''projects'', ''p'', ''src'', ''a.js''], [''app'', ''projects'', ''p'', ''b.js'']}"
    by (simp add: empty' demo_targets)
  moreover have "length demo_files = 2" by (simp add: demo_files_def)
  ultimately show ?thesis
    using demo_well_formed by (simp add: demo_response demo_disk list_all_iff)
qed

theorem load_project_round_trip_counterexample:
  "fst (load_project 2000 True (Str ''p'') (Some more_files) demo) = Loaded ''p'' ''/preview/p''
   \<and> length more_files = 1 \<and> list_all well_formed more_files
   \<and> segs (join_strings [module_dirname demo, ''projects'', ''p'']) = [''app'', ''projects'', ''p'']
   \<and> is_file (disk (snd (load_project 2000 True (Str ''p'') (Some more_files) demo)))
        [''app'', ''projects'', ''p'', ''c.js'']
   \<and> is_file (disk (snd (load_project 2000 True (Str ''p'') (Some more_files) demo)))
        [''app'', ''projects'', ''p'', ''b.js'']
   \<and> is_file (disk (snd (load_project 2000 True (Str ''p'') (Some more_files) demo)))
        [''app'', ''projects'', ''p'', ''src'', ''a.js'']
   \<and> fst (load_project 1000 True (Str ''p'') (Some same_path) (start ''/app''))
        = Loaded ''p'' ''/preview/p''
   \<and> list_all well_formed same_path
   \<and> entry_path (same_path ! 0) = ''a.js'' \<and> entry_text (same_path ! 0) = ''1''
   \<and> disk (snd (load_project 1000 True (Str ''p'') (Some same_path) (start ''/app'')))
        (target ''/app/projects/p'' (same_path ! 0)) = Some (File ''2'')"
  by code_simp

text \<open>
  \<^bold>\<open>C9\<close> (amended). Let the keys of the map be distinct, and the engines of its
  entries too. A tick of the cleanup timer keeps in the map exactly the entries whose age
  \<open>now - createdAt\<close> does not exceed \<open>MAX_AGE\<close>, each with the session it had, and
  closes the engine of none of them. For every other entry, in the order of the map, it
  closes the engine, once, and starts one deletion of the workspace path; a deletion that
  fails is logged, and a deletion that succeeds leaves nothing at or below the path. The
  disk is unchanged wherever no workspace path of an evicted session is a prefix. So the
  workspace of a kept session is unchanged when no evicted session has a workspace path
  equal to its own, above it or below it.

  A kept session is not always left untouched: with \<open>p\<close> and \<open>./p\<close> registered on one
  workspace, the tick that evicts \<open>p\<close> keeps \<open>./p\<close> in the map, does not close its
  engine, and deletes its workspace with the file it held.
\<close>

theorem cleanup_tick:
  assumes "distinct (map fst (projects st))"
      and "distinct (map (\<lambda>e. vite (snd e)) (projects st))"
  shows "projects (cleanup now rm_ok st)
           = filter (\<lambda>e. \<not> now - createdAt (snd e) > MAX_AGE) (projects st)
       \<and> events (cleanup now rm_ok st)
           = events st
             @ concat (map (\<lambda>e. [ViteClosed (vite (snd e)), RmCalled (path (snd e))]
                                 @ (if rm_ok (path (snd e)) then []
                                    else [ErrorLogged (path (snd e))]))
                 (filter (\<lambda>e. now - createdAt (snd e) > MAX_AGE) (projects st)))
       \<and> (\<forall>e\<in>set (projects st). now - createdAt (snd e) > MAX_AGE \<longrightarrow>
             map_of (projects (cleanup now rm_ok st)) (fst e) = None
           \<and> count_list (drop (length (events st)) (events (cleanup now rm_ok st)))
               (ViteClosed (vite (snd e))) = 1
           \<and> (rm_ok (path (snd e)) \<longrightarrow>
                (\<forall>k. prefix (segs (path (snd e))) k \<longrightarrow> disk (cleanup now rm_ok st) k = None)))
       \<and> (\<forall>e\<in>set (projects st). \<not> now - createdAt (snd e) > MAX_AGE \<longrightarrow>
             map_of (projects (cleanup now rm_ok st)) (fst e) = Some (snd e)
           \<and> count_list (drop (length (events st)) (events (cleanup now rm_ok st)))
               (ViteClosed (vite (snd e))) = 0
           \<and> ((\<forall>x\<in>set (projects st). now - createdAt (snd x) > MAX_AGE \<longrightarrow>
                   \<not> prefix (segs (path (snd x))) (segs (path (snd e)))
                 \<and> \<not> prefix (segs (path (snd e))) (segs (path (snd x))))
                \<longrightarrow> (\<forall>k. prefix (segs (path (snd e))) k \<longrightarrow>
                       disk (cleanup now rm_ok st) k = disk st k)))
       \<and> (\<forall>k. (\<forall>e\<in>set (projects st). now - createdAt (snd e) > MAX_AGE \<longrightarrow>
                   \<not> prefix (segs (path (snd e))) k)
             \<longrightarrow> disk (cleanup now rm_ok st) k = disk st k)"
proof -
  have p: "projects (cleanup now rm_ok st) = filter (\<lambda>e. \<not> old now e) (projects st)"
    by (rule cleanup_projects [OF assms(1)])
  have ev: "events (cleanup now rm_ok st)
      = events st @ concat (map (eviction rm_ok) (filter (old now) (projects st)))"
    by (simp add: cleanup_def sweep_events)
  have gone: "map_of (projects (cleanup now rm_ok st)) (fst e) = None"
    if "e \<in> set (projects st)" "old now e" for e
    using map_of_filter_distinct [OF assms(1) that(1), of "\<lambda>e. \<not> old now e"] that(2)
    by (simp add: p)
  have stay: "map_of (projects (cleanup now rm_ok st)) (fst e) = Some (snd e)"
    if "e \<in> set (projects st)" "\<not> old now e" for e
    using map_of_filter_distinct [OF assms(1) that(1), of "\<lambda>e. \<not> old now e"] that(2)
    by (simp add: p)
  have once: "count_list (drop (length (events st)) (events (cleanup now rm_ok st)))
               (ViteClosed (vite (snd e))) = 1"
    if "e \<in> set (projects st)" "old now e" for e
    using filter_filter_one [of "\<lambda>e. vite (snd e)" "projects st" e "old now"] assms(2) that
    by (simp add: ev count_list_evictions)
  have never: "count_list (drop (length (events st)) (events (cleanup now rm_ok st)))
               (ViteClosed (vite (snd e))) = 0"
    if "e \<in> set (projects st)" "\<not> old now e" for e
    using distinct_filter_none [of "\<lambda>e. vite (snd e)" "projects st" e "old now"] assms(2) that
    by (simp add: ev count_list_evictions)
  have rm: "disk (cleanup now rm_ok st) k = None"
    if "e \<in> set (projects st)" "old now e" "rm_ok (path (snd e))" "prefix (segs (path (snd e))) k"
    for e k
    unfolding cleanup_def using that by (rule sweep_disk_removed)
  have kept: "disk (cleanup now rm_ok st) k = disk st k"
    if "\<forall>e\<in>set (projects st). old now e \<longrightarrow> \<not> prefix (segs (path (snd e))) k" for k
    unfolding cleanup_def using that by (rule sweep_disk_kept)
  have ws: "disk (cleanup now rm_ok st) k = disk st k"
    if far: "\<forall>x\<in>set (projects st). old now x \<longrightarrow>
                   \<not> prefix (segs (path (snd x))) (segs (path (snd e)))
                 \<and> \<not> prefix (segs (path (snd e))) (segs (path (snd x)))"
      and k: "prefix (segs (path (snd e))) k" for e k
  proof (rule kept, intro ballI impI notI)
    fix x assume x: "x \<in> set (projects st)" "old now x" "prefix (segs (path (snd x))) k"
    from k x(3) have "prefix (segs (path (snd e))) (segs (path (snd x)))
        \<or> prefix (segs (path (snd x))) (segs (path (snd e)))"
      by (rule prefix_same_cases)
    with far x(1,2) show False by blast
  qed
  have e1: "(\<lambda>e. now - createdAt (snd e) > MAX_AGE) = old now"
    by (simp add: old_def fun_eq_iff)
  have e2: "(\<lambda>e. [ViteClosed (vite (snd e)), RmCalled (path (snd e))]
                                 @ (if rm_ok (path (snd e)) then []
                                    else [ErrorLogged (path (snd e))])) = eviction rm_ok"
    by (simp add: eviction_def fun_eq_iff)
  show ?thesis
    unfolding e1 e2 old_def [symmetric]
    by (intro conjI ballI impI allI)
      (rule p ev | (rule gone stay once never; assumption) | (rule rm; assumption)
        | (rule ws; assumption) | (rule kept; assumption))+
qed

theorem cleanup_tick_witness:
  "distinct (map fst (projects two)) \<and> distinct (map (\<lambda>e. vite (snd e)) (projects two))
   \<and> projects (cleanup 1802000 (\<lambda>p. False) two)
       = [(''q'', \<lparr>vite = 1, path = ''/app/projects/q'',
              files = [Obj [(''path'', Str ''index.html''), (''content'', Str ''hi'')]],
              createdAt = 1500000\<rparr>)]
   \<and> events (cleanup 1802000 (\<lambda>p. False) two)
       = events two @ [ViteClosed 0, RmCalled ''/app/projects/p'', ErrorLogged ''/app/projects/p'']"
  using cleanup_tick [of two 1802000 "\<lambda>p. False"]
  by (simp add: two_projects MAX_AGE_def)

theorem cleanup_tick_counterexample:
  "map (\<lambda>e. (fst e, vite (snd e), path (snd e), createdAt (snd e))) (projects shared)
     = [(''p'', 0, ''/app/projects/p'', 1000), (''./p'', 1, ''/app/projects/p'', 1500000)]
   \<and> \<not> 1802000 - 1500000 > MAX_AGE
   \<and> disk shared [''app'', ''projects'', ''p'', ''x.js''] = Some (File ''hi'')
   \<and> map fst (projects (cleanup 1802000 (\<lambda>p. True) shared)) = [''./p'']
   \<and> count_list (events (cleanup 1802000 (\<lambda>p. True) shared)) (ViteClosed 1) = 0
   \<and> disk (cleanup 1802000 (\<lambda>p. True) shared) [''app'', ''projects'', ''p'', ''x.js''] = None
   \<and> disk (cleanup 1802000 (\<lambda>p. True) shared) [''app'', ''projects'', ''p''] = None"
  by code_simp

text \<open>
  \<^bold>\<open>C10\<close>. update-file answers 400 exactly when projectId is falsy, path is falsy,
  or content is \<open>undefined\<close>. An empty path is answered 400. Content \<open>null\<close> and
  content \<open>''\<close> pass the check; on a registered project \<open>null\<close> then fails in the write
  and is answered 500, with nothing changed.
\<close>

theorem update_file_validation:
  "(status (fst (update_file now projectId p content st)) = 400
      \<longleftrightarrow> (\<not> truthy projectId \<or> \<not> truthy p \<or> content = Undefined))
   \<and> status (fst (update_file now projectId (Str []) content st)) = 400
   \<and> (truthy projectId \<and> truthy p \<longrightarrow>
        status (fst (update_file now projectId p Null st)) \<noteq> 400
        \<and> status (fst (update_file now projectId p (Str []) st)) \<noteq> 400)
   \<and> (truthy projectId \<and> ps \<noteq> [] \<and> projects_get st projectId = Some project \<longrightarrow>
        update_file now projectId (Str ps) Null st
          = (Failure ''Failed to update file'' TypeError, st))"
proof (intro conjI impI)
  show "status (fst (update_file now projectId p content st)) = 400
      \<longleftrightarrow> (\<not> truthy projectId \<or> \<not> truthy p \<or> content = Undefined)"
    by (rule update_file_status_cases)
  show "status (fst (update_file now projectId (Str []) content st)) = 400"
    by (simp add: update_file_invalid)
next
  assume "truthy projectId \<and> truthy p"
  then show "status (fst (update_file now projectId p Null st)) \<noteq> 400"
    and "status (fst (update_file now projectId p (Str []) st)) \<noteq> 400"
    by (simp_all add: update_file_status_cases)
next
  assume "truthy projectId \<and> ps \<noteq> [] \<and> projects_get st projectId = Some project"
  then show "update_file now projectId (Str ps) Null st
          = (Failure ''Failed to update file'' TypeError, st)"
    by (simp add: update_file_known writeFile_refused)
qed

theorem update_file_validation_witness:
  "projects_get demo (Str ''p'') \<noteq> None
   \<and> status (fst (update_file 2000 (Str ''p'') (Str []) (Str ''x'') demo)) = 400
   \<and> status (fst (update_file 2000 (Str ''p'') (Str ''b.js'') (Str []) demo)) \<noteq> 400
   \<and> update_file 2000 (Str ''p'') (Str ''b.js'') Null demo
        = (Failure ''Failed to update file'' TypeError, demo)"
  using update_file_validation [of 2000 "Str ''p''" "Str ''b.js''" "Str ''x''" demo "''b.js''"
      "\<lparr>vite = 0, path = ''/app/projects/p'', files = demo_files, createdAt = 1000\<rparr>"]
  by (simp add: demo_projects)

end
